theory Spec2Isabelle
  imports Main "HOL-Library.Multiset" "HOL-Library.Char_ord" "HOL-Library.List_Lexorder"
begin

section \<open>Python values, errors and text files\<close>

text \<open>
  The embedding follows \<^verbatim>\<open>opusfilter/opusfilter.py\<close>. Exceptions are values of
  \<open>error\<close>; a handler returns \<open>(None, w')\<close> when it returns normally and
  \<open>(Some e, w')\<close> when it raises \<open>e\<close>, where \<open>w'\<close> is the world as the handler left it
  (whatever it had already written stays written).
\<close>

datatype error =
    KeyError string
  | TypeError
  | ValueError
  | IndexError
  | FileNotFoundError string
  | StopIteration
  | AttributeError
  | RecursionError

text \<open>
  Step parameters come from a YAML document: untyped values. A dictionary is an
  association list read with \<open>map_of\<close>. A YAML document can use one node in several
  places (an anchor and its aliases), which the loader turns into one Python object:
  \<open>PShared n v\<close> is the value \<open>v\<close> as the object number \<open>n\<close>, and every \<open>PShared n\<close> of a
  value is the same object. A list or dictionary outside \<open>PShared\<close> is an object of
  its own. To read a shared object is to read its value; sharing shows only where
  an object is assigned to, which \<^verbatim>\<open>score_data\<close> does (to a copy).
\<close>

datatype pv =
    PNone
  | PBool bool
  | PInt int
  | PStr string
  | PList "pv list"
  | PDict "(string \<times> pv) list"
  | PShared nat pv

type_synonym params = "(string \<times> pv) list"

definition bindE :: "error + 'a \<Rightarrow> ('a \<Rightarrow> error + 'b) \<Rightarrow> error + 'b" where
  "bindE r k = (case r of Inl e \<Rightarrow> Inl e | Inr x \<Rightarrow> k x)"

definition getitem :: "params \<Rightarrow> string \<Rightarrow> error + pv" where
  \<comment> \<open>\<^verbatim>\<open>parameters[key]\<close>\<close>
  "getitem d k = (case map_of d k of None \<Rightarrow> Inl (KeyError k) | Some v \<Rightarrow> Inr v)"

definition dict_get :: "params \<Rightarrow> string \<Rightarrow> pv \<Rightarrow> pv" where
  \<comment> \<open>\<^verbatim>\<open>parameters.get(key, default)\<close>\<close>
  "dict_get d k dflt = (case map_of d k of None \<Rightarrow> dflt | Some v \<Rightarrow> v)"

fun truthy :: "pv \<Rightarrow> bool" where
  "truthy PNone = False"
| "truthy (PBool b) = b"
| "truthy (PInt i) = (i \<noteq> 0)"
| "truthy (PStr s) = (s \<noteq> [])"
| "truthy (PList xs) = (xs \<noteq> [])"
| "truthy (PDict d) = (d \<noteq> [])"
| "truthy (PShared n v) = truthy v"

fun as_path :: "pv \<Rightarrow> error + string" where
  \<comment> \<open>a value used as a file name: a string. \<^verbatim>\<open>os.path.join\<close> raises TypeError on
      anything else; so does \<^verbatim>\<open>open\<close>, but for a number, which it would take for a file
      descriptor and which no configuration gives as a path\<close>
  "as_path (PStr s) = Inr s"
| "as_path (PShared n v) = as_path v"
| "as_path v = Inl TypeError"

definition param_path :: "params \<Rightarrow> string \<Rightarrow> error + string" where
  "param_path d k = bindE (getitem d k) as_path"

fun as_int :: "pv \<Rightarrow> error + int" where
  \<comment> \<open>a value used as an integer; \<^verbatim>\<open>bool\<close> is a subclass of \<^verbatim>\<open>int\<close>\<close>
  "as_int (PInt i) = Inr i"
| "as_int (PBool b) = Inr (if b then 1 else 0)"
| "as_int (PShared n v) = as_int v"
| "as_int v = Inl TypeError"

fun as_iterable :: "pv \<Rightarrow> error + pv list" where
  \<comment> \<open>\<^verbatim>\<open>for x in v\<close>: a list gives its items, a string its characters, a dictionary its keys\<close>
  "as_iterable (PList xs) = Inr xs"
| "as_iterable (PStr s) = Inr (map (\<lambda>c. PStr [c]) s)"
| "as_iterable (PDict d) = Inr (map (\<lambda>kv. PStr (fst kv)) d)"
| "as_iterable (PShared n v) = as_iterable v"
| "as_iterable v = Inl TypeError"

fun as_dict :: "pv \<Rightarrow> error + params" where
  \<comment> \<open>a value whose \<^verbatim>\<open>.get\<close> is called: anything but a dictionary has no such attribute\<close>
  "as_dict (PDict d) = Inr d"
| "as_dict (PShared n v) = as_dict v"
| "as_dict v = Inl AttributeError"

definition path_join :: "string \<Rightarrow> string \<Rightarrow> string" where
  \<comment> \<open>\<^verbatim>\<open>os.path.join(a, b)\<close> of posixpath\<close>
  "path_join a b =
     (if b \<noteq> [] \<and> hd b = CHR ''/'' then b
      else if a = [] \<or> last a = CHR ''/'' then a @ b
      else a @ ''/'' @ b)"

subsection \<open>The world: files, the log of files opened for writing, the random source\<close>

text \<open>
  A file is its path and its text, as Python's text layer presents it (line ends are
  \<^verbatim>\<open>\n\<close>). Directories are not modelled. \<open>wlog\<close> records, in order, every path that
  was opened in write mode: opening a file in mode \<^verbatim>\<open>'w'\<close> creates or truncates it, so
  it mutates the file system even when the text written afterwards is the same as
  before. \<open>rng\<close> is the state of the process-wide generator of \<^verbatim>\<open>random\<close>.

  A file is read as the text it holds when the reading starts, and what is written
  reaches the file at once. So a file that is opened for writing before it is read is
  read empty, as in Python; where Python's buffers would matter (a file read while the
  same handler is still writing to it) the model does not follow them. For a value of a
  type that the configuration schema does not allow, the model raises where Python
  raises, not always with the same exception class.
\<close>

record 'r world =
  files :: "string \<rightharpoonup> string"
  wlog :: "string list"
  rng :: 'r

type_synonym 'r outcome = "error option \<times> 'r world"

definition on_ok :: "error + 'a \<Rightarrow> 'r world \<Rightarrow> ('a \<Rightarrow> 'r outcome) \<Rightarrow> 'r outcome" where
  \<comment> \<open>an expression that may raise, evaluated in world \<open>w\<close>, then the rest of the body\<close>
  "on_ok r w k = (case r of Inl e \<Rightarrow> (Some e, w) | Inr x \<Rightarrow> k x)"

definition isfile :: "'r world \<Rightarrow> string \<Rightarrow> bool" where
  "isfile w p = (files w p \<noteq> None)"

definition open_read :: "'r world \<Rightarrow> string \<Rightarrow> error + string" where
  \<comment> \<open>open for reading: the handle is the path\<close>
  "open_read w p = (if isfile w p then Inr p else Inl (FileNotFoundError p))"

definition read_text :: "'r world \<Rightarrow> string \<Rightarrow> string" where
  \<comment> \<open>the text behind a handle that is open for reading (the file exists)\<close>
  "read_text w p = (case files w p of None \<Rightarrow> [] | Some c \<Rightarrow> c)"

definition open_write :: "'r world \<Rightarrow> string \<Rightarrow> 'r world" where
  \<comment> \<open>mode \<^verbatim>\<open>'w'\<close>: create or truncate\<close>
  "open_write w p = w\<lparr>files := (files w)(p \<mapsto> []), wlog := wlog w @ [p]\<rparr>"

definition fwrite :: "'r world \<Rightarrow> string \<Rightarrow> string \<Rightarrow> 'r world" where
  "fwrite w p s = w\<lparr>files := (files w)(p \<mapsto> read_text w p @ s)\<rparr>"

definition newline :: char where
  "newline = CHR 0x0A"

definition unlines :: "string list \<Rightarrow> string" where
  \<comment> \<open>the text of a file whose lines are \<open>ls\<close>, each ended by a newline\<close>
  "unlines ls = concat (map (\<lambda>l. l @ [newline]) ls)"

fun iter_lines :: "string \<Rightarrow> string list" where
  \<comment> \<open>\<^verbatim>\<open>for line in f\<close>: each line keeps its newline; the last one may have none\<close>
  "iter_lines [] = []"
| "iter_lines (c # cs) =
     (if c = newline then [c] # iter_lines cs
      else (case iter_lines cs of [] \<Rightarrow> [[c]] | l # ls \<Rightarrow> (c # l) # ls))"

definition is_line_boundary :: "char \<Rightarrow> bool" where
  \<comment> \<open>the line boundaries of \<^verbatim>\<open>str.splitlines\<close> below U+0100\<close>
  "is_line_boundary c = (of_char c \<in> {10, 11, 12, 13, 28, 29, 30, 133 :: nat})"

fun splitlines :: "string \<Rightarrow> string list" where
  \<comment> \<open>\<^verbatim>\<open>str.splitlines()\<close>: boundaries are dropped, \<^verbatim>\<open>\r\n\<close> is one boundary\<close>
  "splitlines [] = []"
| "splitlines [c] = (if is_line_boundary c then [[]] else [[c]])"
| "splitlines (c # d # cs) =
     (if c = CHR 0x0D \<and> d = CHR 0x0A then [] # splitlines cs
      else if is_line_boundary c then [] # splitlines (d # cs)
      else (case splitlines (d # cs) of [] \<Rightarrow> [[c]] | l # ls \<Rightarrow> (c # l) # ls))"

definition sorted_py :: "('a \<Rightarrow> 'k::linorder) \<Rightarrow> bool \<Rightarrow> 'a list \<Rightarrow> 'a list" where
  \<comment> \<open>\<^verbatim>\<open>sorted(xs, key=key, reverse=reverse)\<close>: stable in both directions\<close>
  "sorted_py key reverse xs =
     (if reverse then rev (sort_key key (rev xs)) else sort_key key xs)"

section \<open>The processor object\<close>

record step =
  stype :: string
  sparams :: params

record configuration =
  common_output_directory :: "string option"
  steps :: "step list"

record opusfilter =
  configuration :: configuration
  output_dir :: string

definition opusfilter_init :: "configuration \<Rightarrow> opusfilter" where
  \<comment> \<open>\<^verbatim>\<open>__init__\<close>: an absent or empty output directory is the current directory (the
      directory that \<^verbatim>\<open>__init__\<close> creates when it is missing is not modelled)\<close>
  "opusfilter_init c =
     \<lparr>configuration = c,
      output_dir = (case common_output_directory c of
                      None \<Rightarrow> ''.''
                    | Some d \<Rightarrow> if d = [] then ''.'' else d)\<rparr>"

section \<open>\<^verbatim>\<open>order_by_rank\<close>\<close>

definition open_param_read :: "params \<Rightarrow> string \<Rightarrow> 'r world \<Rightarrow> error + string" where
  \<comment> \<open>\<^verbatim>\<open>open(parameters[key])\<close>\<close>
  "open_param_read parameters k w = bindE (param_path parameters k) (open_read w)"

definition write_row :: "string \<Rightarrow> string \<Rightarrow> string \<Rightarrow> 'r world \<Rightarrow> string \<times> string \<times> string \<Rightarrow> 'r world" where
  "write_row output_src output_tgt output_ranks w row =
     (case row of (src, tgt, rank) \<Rightarrow>
        fwrite (fwrite (fwrite w output_src (src @ [newline]))
                  output_tgt (tgt @ [newline]))
          output_ranks (rank @ [newline]))"

definition order_by_rank :: "opusfilter \<Rightarrow> params \<Rightarrow> bool \<Rightarrow> 'r world \<Rightarrow> 'r outcome" where
  "order_by_rank self parameters overwrite w =
     on_ok (open_param_read parameters ''input_src'' w) w (\<lambda>input_src.
     on_ok (open_param_read parameters ''input_tgt'' w) w (\<lambda>input_tgt.
     on_ok (open_param_read parameters ''input_ranks'' w) w (\<lambda>input_ranks.
     on_ok (param_path parameters ''output_src'') w (\<lambda>output_src.
     let w1 = open_write w output_src in
     on_ok (param_path parameters ''output_tgt'') w1 (\<lambda>output_tgt.
     let w2 = open_write w1 output_tgt in
     on_ok (param_path parameters ''output_ranks'') w2 (\<lambda>output_ranks.
     let w3 = open_write w2 output_ranks;
         zipped = zip (splitlines (read_text w3 input_src))
                    (zip (splitlines (read_text w3 input_tgt))
                       (splitlines (read_text w3 input_ranks)));
         zipped = sorted_py (\<lambda>t. snd (snd t)) True zipped
     in (None, foldl (write_row output_src output_tgt output_ranks) w3 zipped)))))))"

section \<open>External collaborators\<close>

text \<open>
  The modules \<^verbatim>\<open>random\<close>, \<^verbatim>\<open>json\<close>, \<^verbatim>\<open>opustools\<close>, \<^verbatim>\<open>tokenization\<close>, \<^verbatim>\<open>pipeline\<close>, \<^verbatim>\<open>lm\<close>,
  \<^verbatim>\<open>word_alignment\<close> and \<^verbatim>\<open>classifier\<close> are not part of the file under study. What the
  handlers call in them is a parameter of the model, collected in the record \<open>ext\<close>.
  A tokenizer maps a line to its tokenized form; \<^verbatim>\<open>filter_data\<close> concatenates that form
  with a newline, so it is a string. \<open>recursion_limit\<close> is the depth of nesting beyond
  which \<^verbatim>\<open>copy.deepcopy\<close> raises RecursionError under the recursion limit of the
  interpreter.
\<close>

type_synonym pairs = "(string \<times> string) list"

record pipeline =
  pfilter :: "pairs \<Rightarrow> pairs"
  pfilterfalse :: "pairs \<Rightarrow> pairs"
  pscore :: "pairs \<Rightarrow> pv list"

record 'r ext =
  random_seed :: "pv \<Rightarrow> 'r \<Rightarrow> 'r"
  random_sample :: "nat \<Rightarrow> int \<Rightarrow> 'r \<Rightarrow> (error + nat list) \<times> 'r"
  random_shuffle :: "string list \<Rightarrow> 'r \<Rightarrow> string list \<times> 'r"
  json_dumps :: "pv \<Rightarrow> string"
  py_str :: "pv \<Rightarrow> string"
  get_tokenize :: "pv \<Rightarrow> string \<Rightarrow> string"
  from_config :: "pv \<Rightarrow> error + pipeline"
  opus_print_pairs :: "pv list \<Rightarrow> string \<Rightarrow> string \<Rightarrow> string \<Rightarrow> 'r world \<Rightarrow> 'r outcome"
  lm_tokenizer :: "pv \<Rightarrow> error + (string \<Rightarrow> string list)"
  lm_train :: "string \<Rightarrow> string \<Rightarrow> pv \<Rightarrow> 'r world \<Rightarrow> 'r outcome"
  make_priors :: "error + pairs \<Rightarrow> string \<Rightarrow> pv \<Rightarrow> 'r world \<Rightarrow> 'r outcome"
  filter_classifier :: "params \<Rightarrow> 'r world \<Rightarrow> 'r outcome"
  find_and_assign :: "params \<Rightarrow> pv \<Rightarrow> 'r world \<Rightarrow> 'r outcome"
  recursion_limit :: nat

definition and_then :: "'r outcome \<Rightarrow> ('r world \<Rightarrow> 'r outcome) \<Rightarrow> 'r outcome" where
  \<comment> \<open>one statement after another: an exception ends the body\<close>
  "and_then r k = (case r of (Some e, w) \<Rightarrow> (Some e, w) | (None, w) \<Rightarrow> k w)"

definition skip_step :: "bool \<Rightarrow> 'r world \<Rightarrow> string list \<Rightarrow> bool" where
  \<comment> \<open>\<^verbatim>\<open>not overwrite and os.path.isfile(a) and os.path.isfile(b)\<close>\<close>
  "skip_step overwrite w outs = (\<not> overwrite \<and> list_all (isfile w) outs)"

section \<open>\<^verbatim>\<open>read_from_opus\<close>\<close>

definition read_from_opus :: "'r ext \<Rightarrow> opusfilter \<Rightarrow> params \<Rightarrow> bool \<Rightarrow> 'r world \<Rightarrow> 'r outcome" where
  "read_from_opus E self parameters overwrite w =
     on_ok (param_path parameters ''src_output'') w (\<lambda>so.
     let src_out = path_join (output_dir self) so in
     on_ok (param_path parameters ''tgt_output'') w (\<lambda>to.
     let tgt_out = path_join (output_dir self) to in
     if skip_step overwrite w [src_out, tgt_out] then (None, w)
     else
       on_ok (getitem parameters ''corpus_name'') w (\<lambda>corpus_name.
       on_ok (getitem parameters ''source_language'') w (\<lambda>source_language.
       on_ok (getitem parameters ''target_language'') w (\<lambda>target_language.
       on_ok (getitem parameters ''release'') w (\<lambda>release.
       on_ok (getitem parameters ''preprocessing'') w (\<lambda>preprocessing.
         opus_print_pairs E
           [corpus_name, source_language, target_language, release, preprocessing]
           src_out tgt_out (output_dir self) w)))))))"

section \<open>\<^verbatim>\<open>pair_generator\<close> and \<^verbatim>\<open>get_pairs\<close>\<close>

definition is_space :: "char \<Rightarrow> bool" where
  \<comment> \<open>the whitespace of \<^verbatim>\<open>str.strip\<close> below U+0100\<close>
  "is_space c = (of_char c \<in> {9, 10, 11, 12, 13, 28, 29, 30, 31, 32, 133, 160 :: nat})"

definition rstrip :: "string \<Rightarrow> string" where
  "rstrip s = rev (dropWhile is_space (rev s))"

definition strip :: "string \<Rightarrow> string" where
  "strip s = dropWhile is_space (rstrip s)"

fun readline :: "string list \<Rightarrow> string \<times> string list" where
  \<comment> \<open>\<^verbatim>\<open>f.readline()\<close> on the lines still unread: the empty string at the end of the file\<close>
  "readline [] = ([], [])"
| "readline (l # ls) = (l, ls)"

fun pair_loop :: "(string \<Rightarrow> string) \<Rightarrow> (string \<Rightarrow> string) \<Rightarrow> string list \<Rightarrow> string list \<Rightarrow> pairs" where
  \<comment> \<open>the loop over the source file; the last argument is what is left of the target file\<close>
  "pair_loop src_tokenize tgt_tokenize [] target_file = []"
| "pair_loop src_tokenize tgt_tokenize (src_line # source_file) target_file =
     (case readline target_file of (tgt_line, target_file') \<Rightarrow>
        (src_tokenize (rstrip src_line), tgt_tokenize (rstrip tgt_line))
          # pair_loop src_tokenize tgt_tokenize source_file target_file')"

definition pair_generator :: "'r ext \<Rightarrow> string \<Rightarrow> string \<Rightarrow> pv \<Rightarrow> pv \<Rightarrow> 'r world \<Rightarrow> error + pairs" where
  \<comment> \<open>the pairs the generator yields when it is consumed in world \<open>w\<close>, or the exception
      its first step raises\<close>
  "pair_generator E source_file_name target_file_name src_tokenizer tgt_tokenizer w =
     (let src_tokenize = get_tokenize E src_tokenizer;
          tgt_tokenize = get_tokenize E tgt_tokenizer
      in bindE (open_read w source_file_name) (\<lambda>source_file.
         bindE (open_read w target_file_name) (\<lambda>target_file.
           Inr (pair_loop src_tokenize tgt_tokenize
                  (iter_lines (read_text w source_file))
                  (iter_lines (read_text w target_file))))))"

fun format_value :: "'r ext \<Rightarrow> pv \<Rightarrow> string" where
  \<comment> \<open>a value in a \<^verbatim>\<open>str.format\<close> field: a string is itself, anything else its \<^verbatim>\<open>str()\<close>\<close>
  "format_value E (PStr s) = s"
| "format_value E (PShared n v) = format_value E v"
| "format_value E v = py_str E v"

definition get_pairs :: "'r ext \<Rightarrow> opusfilter \<Rightarrow> pv \<Rightarrow> pv \<Rightarrow> 'r world \<Rightarrow> error + pairs" where
  "get_pairs E self src_filename tgt_filename w =
     pair_generator E
       (output_dir self @ ''/'' @ format_value E src_filename)
       (output_dir self @ ''/'' @ format_value E tgt_filename)
       PNone PNone w"

section \<open>\<^verbatim>\<open>filter_data\<close>\<close>

fun write_pairs :: "pv \<Rightarrow> string \<Rightarrow> string \<Rightarrow> nat \<Rightarrow> pairs \<Rightarrow> 'r world \<Rightarrow> 'r outcome" where
  \<comment> \<open>the writing loop, from index \<open>idx\<close> on; it stops at \<^verbatim>\<open>limit and idx >= limit - 1\<close>\<close>
  "write_pairs limit src_out tgt_out idx [] w = (None, w)"
| "write_pairs limit src_out tgt_out idx (pair # rest) w =
     (let w1 = fwrite (fwrite w src_out (fst pair @ [newline])) tgt_out (snd pair @ [newline])
      in if truthy limit then
           on_ok (as_int limit) w1 (\<lambda>l.
             if int idx \<ge> l - 1 then (None, w1)
             else write_pairs limit src_out tgt_out (Suc idx) rest w1)
         else write_pairs limit src_out tgt_out (Suc idx) rest w1)"

definition filter_data :: "'r ext \<Rightarrow> opusfilter \<Rightarrow> params \<Rightarrow> bool \<Rightarrow> 'r world \<Rightarrow> 'r outcome" where
  "filter_data E self parameters overwrite w =
     on_ok (param_path parameters ''src_output'') w (\<lambda>so.
     let src_out = path_join (output_dir self) so in
     on_ok (param_path parameters ''tgt_output'') w (\<lambda>to.
     let tgt_out = path_join (output_dir self) to in
     if skip_step overwrite w [src_out, tgt_out] then (None, w)
     else
       on_ok (bindE (getitem parameters ''filters'') (from_config E)) w (\<lambda>filter_pipe.
       let filterfalse = dict_get parameters ''filterfalse'' (PBool False) in
       on_ok (getitem parameters ''src_input'') w (\<lambda>src_input.
       on_ok (getitem parameters ''tgt_input'') w (\<lambda>tgt_input.
       let limit = dict_get parameters ''limit'' PNone;
           w1 = open_write (open_write w src_out) tgt_out
       in on_ok (get_pairs E self src_input tgt_input w1) w1 (\<lambda>pairs_gen.
          let pairs = (if truthy filterfalse then pfilterfalse filter_pipe pairs_gen
                       else pfilter filter_pipe pairs_gen)
          in write_pairs limit src_out tgt_out 0 pairs w1))))))"

section \<open>\<^verbatim>\<open>concatenate\<close>\<close>

definition write_lines :: "string \<Rightarrow> string list \<Rightarrow> 'r world \<Rightarrow> 'r world" where
  \<comment> \<open>\<^verbatim>\<open>for line in lines: outf.write(line)\<close>\<close>
  "write_lines outp ls w = foldl (\<lambda>w line. fwrite w outp line) w ls"

fun concatenate_loop :: "string \<Rightarrow> string \<Rightarrow> pv list \<Rightarrow> 'r world \<Rightarrow> 'r outcome" where
  "concatenate_loop od outfile [] w = (None, w)"
| "concatenate_loop od outfile (infile # rest) w =
     on_ok (bindE (as_path infile) (\<lambda>p. open_read w (path_join od p))) w (\<lambda>inf.
       concatenate_loop od outfile rest (write_lines outfile (iter_lines (read_text w inf)) w))"

definition concatenate :: "'r ext \<Rightarrow> opusfilter \<Rightarrow> params \<Rightarrow> bool \<Rightarrow> 'r world \<Rightarrow> 'r outcome" where
  "concatenate E self parameters overwrite w =
     on_ok (param_path parameters ''output'') w (\<lambda>out.
     let outfile = path_join (output_dir self) out in
     if skip_step overwrite w [outfile] then (None, w)
     else
       let w1 = open_write w outfile in
       on_ok (bindE (getitem parameters ''inputs'') as_iterable) w1 (\<lambda>inputs.
         concatenate_loop (output_dir self) outfile inputs w1))"

section \<open>\<^verbatim>\<open>get_subset\<close>\<close>

definition get_total_lines :: "'r world \<Rightarrow> string \<Rightarrow> error + int" where
  \<comment> \<open>\<^verbatim>\<open>_get_total_lines\<close>: the last index of \<^verbatim>\<open>enumerate\<close>, plus one\<close>
  "get_total_lines w fname =
     bindE (open_read w fname) (\<lambda>fobj.
       Inr (foldl (\<lambda>total' p. int (fst p)) (- 1) (List.enumerate 0 (iter_lines (read_text w fobj))) + 1))"

fun yield_loop :: "nat \<Rightarrow> nat list \<Rightarrow> (nat \<times> 'a) list \<Rightarrow> 'a list" where
  \<comment> \<open>the loop of \<^verbatim>\<open>_yield_subset\<close>; \<^verbatim>\<open>remaining.pop()\<close> takes the last element\<close>
  "yield_loop cur remaining [] = []"
| "yield_loop cur remaining (p # rest) =
     (if fst p = cur then
        snd p # (if remaining \<noteq> [] then yield_loop (last remaining) (butlast remaining) rest
                 else [])
      else yield_loop cur remaining rest)"

definition yield_subset :: "'a list \<Rightarrow> nat list \<Rightarrow> 'a list" where
  "yield_subset iterable indices =
     (if indices = [] then []
      else let remaining = sorted_py (\<lambda>i. i) True indices
           in yield_loop (last remaining) (butlast remaining) (List.enumerate 0 iterable))"

definition draw_sample :: "'r ext \<Rightarrow> int \<Rightarrow> pv \<Rightarrow> 'r world \<Rightarrow> (nat list \<Rightarrow> 'r world \<Rightarrow> 'r outcome) \<Rightarrow> 'r outcome" where
  \<comment> \<open>\<^verbatim>\<open>sample = random.sample(range(total), size)\<close>, then the rest of the body\<close>
  "draw_sample E total' size' w k =
     on_ok (as_int size') w (\<lambda>n.
       case random_sample E (nat total') n (rng w) of
         (Inl e, r) \<Rightarrow> (Some e, w\<lparr>rng := r\<rparr>)
       | (Inr sample, r) \<Rightarrow> k sample (w\<lparr>rng := r\<rparr>))"

definition write_subset :: "string \<Rightarrow> string \<Rightarrow> nat list \<Rightarrow> 'r world \<Rightarrow> 'r outcome" where
  \<comment> \<open>\<^verbatim>\<open>with file_open(inp) as inf, file_open(outp, 'w') as outf:\<close> write the subset\<close>
  "write_subset inp outp sample w =
     on_ok (open_read w inp) w (\<lambda>inf.
     let w1 = open_write w outp in
     (None, write_lines outp (yield_subset (iter_lines (read_text w1 inf)) sample) w1))"

definition get_subset :: "'r ext \<Rightarrow> opusfilter \<Rightarrow> params \<Rightarrow> bool \<Rightarrow> 'r world \<Rightarrow> 'r outcome" where
  "get_subset E self parameters overwrite w =
     on_ok (param_path parameters ''src_input'') w (\<lambda>si.
     let src_in = path_join (output_dir self) si in
     on_ok (param_path parameters ''tgt_input'') w (\<lambda>ti.
     let tgt_in = path_join (output_dir self) ti in
     on_ok (param_path parameters ''src_output'') w (\<lambda>so.
     let src_out = path_join (output_dir self) so in
     on_ok (param_path parameters ''tgt_output'') w (\<lambda>to.
     let tgt_out = path_join (output_dir self) to in
     if skip_step overwrite w [src_out, tgt_out] then (None, w)
     else
       let w1 = w\<lparr>rng := random_seed E (dict_get parameters ''seed'' PNone) (rng w)\<rparr> in
       on_ok (getitem parameters ''size'') w1 (\<lambda>size'.
       let shuffle_target = dict_get parameters ''shuffle_target'' (PBool False) in
       on_ok (get_total_lines w1 src_in) w1 (\<lambda>total'.
       if truthy shuffle_target then
         draw_sample E total' size' w1 (\<lambda>sample w2.
         and_then (write_subset src_in src_out sample w2) (\<lambda>w3.
         draw_sample E total' size' w3 (\<lambda>sample w4.
         on_ok (open_read w4 tgt_in) w4 (\<lambda>inf.
         let lines = yield_subset (iter_lines (read_text w4 inf)) sample in
         case random_shuffle E lines (rng w4) of (lines, r) \<Rightarrow>
           (None, write_lines tgt_out lines (open_write (w4\<lparr>rng := r\<rparr>) tgt_out))))))
       else
         draw_sample E total' size' w1 (\<lambda>sample w2.
         and_then (write_subset src_in src_out sample w2) (\<lambda>w3.
         write_subset tgt_in tgt_out sample w3))))))))"

section \<open>\<^verbatim>\<open>train_ngram\<close> and \<^verbatim>\<open>train_alignment\<close>\<close>

fun join_space :: "string list \<Rightarrow> string" where
  \<comment> \<open>\<^verbatim>\<open>' '.join(tokens)\<close>\<close>
  "join_space [] = []"
| "join_space [t] = t"
| "join_space (t # ts) = t @ '' '' @ join_space ts"

definition train_ngram :: "'r ext \<Rightarrow> opusfilter \<Rightarrow> params \<Rightarrow> bool \<Rightarrow> 'r world \<Rightarrow> 'r outcome" where
  "train_ngram E self parameters overwrite w =
     on_ok (param_path parameters ''model'') w (\<lambda>m.
     let model_out = path_join (output_dir self) m in
     if skip_step overwrite w [model_out] then (None, w)
     else
       on_ok (bindE (getitem parameters ''data'') as_path) w (\<lambda>data_name.
       let seg_name = data_name @ ''.seg.gz'' in
       on_ok (getitem parameters ''parameters'') w (\<lambda>lm_params.
       on_ok (lm_tokenizer E lm_params) w (\<lambda>tokenize.
       on_ok (open_read w (path_join (output_dir self) data_name)) w (\<lambda>infile.
       let outfile = path_join (output_dir self) seg_name;
           w1 = open_write w outfile;
           w2 = write_lines outfile
                  (map (\<lambda>line. join_space (tokenize (strip line)) @ [newline])
                     (iter_lines (read_text w1 infile))) w1
       in lm_train E (path_join (output_dir self) seg_name) model_out lm_params w2)))))"

definition train_alignment :: "'r ext \<Rightarrow> opusfilter \<Rightarrow> params \<Rightarrow> bool \<Rightarrow> 'r world \<Rightarrow> 'r outcome" where
  \<comment> \<open>\<^verbatim>\<open>make_priors\<close> consumes the generator: it receives the pairs, or the exception the
      generator raises, as they are in the world of the call\<close>
  "train_alignment E self parameters overwrite w =
     on_ok (param_path parameters ''output'') w (\<lambda>out.
     let model_out = path_join (output_dir self) out in
     if skip_step overwrite w [model_out] then (None, w)
     else
       on_ok (param_path parameters ''src_data'') w (\<lambda>src_data.
       on_ok (param_path parameters ''tgt_data'') w (\<lambda>tgt_data.
       on_ok (bindE (getitem parameters ''parameters'') as_dict) w (\<lambda>ps.
       let pair_gen = pair_generator E
                        (path_join (output_dir self) src_data)
                        (path_join (output_dir self) tgt_data)
                        (dict_get ps ''src_tokenizer'' PNone)
                        (dict_get ps ''tgt_tokenizer'' PNone) w
       in make_priors E pair_gen model_out (dict_get ps ''model'' (PInt 3)) w))))"

section \<open>Objects: the deep copy and the rewriting of paths\<close>

text \<open>
  \<^verbatim>\<open>score_data\<close> copies the filter parameters with \<^verbatim>\<open>copy.deepcopy\<close> and then assigns to
  keys and items of the copy. What that does to the caller's objects depends on which
  objects are shared, so here lists and dictionaries are objects in a store. An address
  is an index into the store; a new object is appended. Strings, numbers, booleans and
  \<^verbatim>\<open>None\<close> are immutable and stand for themselves.
\<close>

datatype hval = HNone | HBool bool | HInt int | HStr string | HRef nat

datatype hobj = HList "hval list" | HDict "(string \<times> hval) list"

type_synonym heap = "hobj list"

type_synonym hout = "error option \<times> heap"

definition load_dict :: "heap \<Rightarrow> hval \<Rightarrow> error \<Rightarrow> error + nat \<times> (string \<times> hval) list" where
  \<comment> \<open>the dictionary a value refers to; \<open>e\<close> is what Python raises when it is none\<close>
  "load_dict h v e =
     (case v of
        HRef a \<Rightarrow> (if a < length h then
                      (case h ! a of HDict d \<Rightarrow> Inr (a, d) | HList xs \<Rightarrow> Inl e)
                    else Inl e)
      | _ \<Rightarrow> Inl e)"

definition load_list :: "heap \<Rightarrow> hval \<Rightarrow> error + nat \<times> hval list" where
  \<comment> \<open>the list a value refers to\<close>
  "load_list h v =
     (case v of
        HRef a \<Rightarrow> (if a < length h then
                      (case h ! a of HList xs \<Rightarrow> Inr (a, xs) | HDict d \<Rightarrow> Inl TypeError)
                    else Inl TypeError)
      | _ \<Rightarrow> Inl TypeError)"

definition hgetitem :: "(string \<times> hval) list \<Rightarrow> string \<Rightarrow> error + hval" where
  \<comment> \<open>\<^verbatim>\<open>d[k]\<close>\<close>
  "hgetitem d k = (case map_of d k of None \<Rightarrow> Inl (KeyError k) | Some v \<Rightarrow> Inr v)"

fun hpath :: "hval \<Rightarrow> error + string" where
  \<comment> \<open>the second argument of \<^verbatim>\<open>os.path.join\<close>: a string\<close>
  "hpath (HStr s) = Inr s"
| "hpath v = Inl TypeError"

definition hdict_set :: "string \<Rightarrow> hval \<Rightarrow> (string \<times> hval) list \<Rightarrow> (string \<times> hval) list" where
  \<comment> \<open>the entries of a dictionary after \<^verbatim>\<open>d[k] = v\<close>\<close>
  "hdict_set k v d =
     (if map_of d k = None then d @ [(k, v)]
      else map (\<lambda>kv. if fst kv = k then (k, v) else kv) d)"

definition hon_ok :: "error + 'a \<Rightarrow> heap \<Rightarrow> ('a \<Rightarrow> hout) \<Rightarrow> hout" where
  "hon_ok r h k = (case r of Inl e \<Rightarrow> (Some e, h) | Inr x \<Rightarrow> k x)"

definition hthen :: "hout \<Rightarrow> (heap \<Rightarrow> hout) \<Rightarrow> hout" where
  "hthen r k = (case r of (Some e, h) \<Rightarrow> (Some e, h) | (None, h) \<Rightarrow> k h)"

definition htruthy :: "heap \<Rightarrow> hval \<Rightarrow> bool" where
  \<comment> \<open>the truth value of \<^verbatim>\<open>src_lm_params.get('interpolate')\<close>\<close>
  "htruthy h v =
     (case v of
        HNone \<Rightarrow> False
      | HBool b \<Rightarrow> b
      | HInt i \<Rightarrow> i \<noteq> 0
      | HStr s \<Rightarrow> s \<noteq> []
      | HRef a \<Rightarrow> a < length h \<and> (case h ! a of HList xs \<Rightarrow> xs \<noteq> [] | HDict d \<Rightarrow> d \<noteq> []))"

definition set_item0 :: "string \<Rightarrow> hval \<Rightarrow> heap \<Rightarrow> hout" where
  \<comment> \<open>\<^verbatim>\<open>x[0] = os.path.join(self.output_dir, x[0])\<close> for an item \<open>x\<close> of \<^verbatim>\<open>interpolate\<close>\<close>
  "set_item0 od x h =
     hon_ok (load_list h x) h (\<lambda>(c, ys).
       case ys of
         [] \<Rightarrow> (Some IndexError, h)
       | y # ys' \<Rightarrow> hon_ok (hpath y) h (\<lambda>p.
                     (None, h[c := HList (HStr (path_join od p) # ys')])))"

fun interpolate_loop :: "string \<Rightarrow> nat \<Rightarrow> nat list \<Rightarrow> heap \<Rightarrow> hout" where
  \<comment> \<open>\<^verbatim>\<open>for idx in range(len(lm_params['interpolate']))\<close>, the dictionary \<^verbatim>\<open>lm_params\<close> at
      address \<open>a\<close>; every round reads \<^verbatim>\<open>lm_params['interpolate'][idx]\<close> from the store\<close>
  "interpolate_loop od a [] h = (None, h)"
| "interpolate_loop od a (idx # rest) h =
     hon_ok (load_dict h (HRef a) TypeError) h (\<lambda>(a', d).
     hon_ok (hgetitem d ''interpolate'') h (\<lambda>interpolate.
     hon_ok (load_list h interpolate) h (\<lambda>(b, items).
       if idx < length items then
         hthen (set_item0 od (items ! idx) h) (interpolate_loop od a rest)
       else (Some IndexError, h))))"

definition obj_rewrite_lm_params :: "string \<Rightarrow> hval \<Rightarrow> heap \<Rightarrow> hout" where
  \<comment> \<open>the block on \<^verbatim>\<open>src_lm_params\<close>, and the same block on \<^verbatim>\<open>tgt_lm_params\<close>\<close>
  "obj_rewrite_lm_params od lm_params h =
     hon_ok (load_dict h lm_params TypeError) h (\<lambda>(a, d).
     hon_ok (bindE (hgetitem d ''filename'') hpath) h (\<lambda>filename.
     let d1 = hdict_set ''filename'' (HStr (path_join od filename)) d;
         h1 = h[a := HDict d1];
         interpolate = (case map_of d1 ''interpolate'' of None \<Rightarrow> HNone | Some v \<Rightarrow> v)
     in if htruthy h1 interpolate then
          hon_ok (load_list h1 interpolate) h1 (\<lambda>(b, items).
            interpolate_loop od a [0..<length items] h1)
        else (None, h1)))"

fun is_substring :: "string \<Rightarrow> string \<Rightarrow> bool" where
  "is_substring k [] = (k = [])"
| "is_substring k (c # cs) = (take (length k) (c # cs) = k \<or> is_substring k cs)"

fun obj_contains :: "heap \<Rightarrow> string \<Rightarrow> hval \<Rightarrow> error + bool" where
  \<comment> \<open>\<^verbatim>\<open>k in v\<close> for a string \<open>k\<close>\<close>
  "obj_contains h k (HRef a) =
     (if a < length h then
        (case h ! a of
           HDict d \<Rightarrow> Inr (map_of d k \<noteq> None)
         | HList xs \<Rightarrow> Inr (list_ex (\<lambda>x. x = HStr k) xs))
      else Inl TypeError)"
| "obj_contains h k (HStr s) = Inr (is_substring k s)"
| "obj_contains h k v = Inl TypeError"

definition obj_rewrite_filter :: "string \<Rightarrow> hval \<Rightarrow> heap \<Rightarrow> hout" where
  \<comment> \<open>the body of \<^verbatim>\<open>for f in filter_params\<close>\<close>
  "obj_rewrite_filter od f h =
     hon_ok (load_dict h f AttributeError) h (\<lambda>(a, fd).
     case fd of
       [] \<Rightarrow> (Some StopIteration, h)
     | (filter_name, fp) # _ \<Rightarrow>
         hthen (if filter_name = ''WordAlignFilter'' then
                  hon_ok (obj_contains h ''priors'' fp) h (\<lambda>has_priors.
                    if has_priors then
                      hon_ok (load_dict h fp TypeError) h (\<lambda>(b, d).
                      hon_ok (bindE (hgetitem d ''priors'') hpath) h (\<lambda>priors.
                        (None, h[b := HDict (hdict_set ''priors'' (HStr (path_join od priors)) d)])))
                    else (None, h))
                else (None, h)) (\<lambda>h1.
         if filter_name = ''CrossEntropyFilter'' then
           hon_ok (load_dict h1 fp TypeError) h1 (\<lambda>(b, d).
           hon_ok (hgetitem d ''src_lm_params'') h1 (\<lambda>src_lm_params.
           hthen (obj_rewrite_lm_params od src_lm_params h1) (\<lambda>h2.
           hon_ok (load_dict h2 fp TypeError) h2 (\<lambda>(b', d').
           hon_ok (hgetitem d' ''tgt_lm_params'') h2 (\<lambda>tgt_lm_params.
             obj_rewrite_lm_params od tgt_lm_params h2)))))
         else (None, h1)))"

fun obj_rewrite_loop :: "string \<Rightarrow> hval list \<Rightarrow> heap \<Rightarrow> hout" where
  "obj_rewrite_loop od [] h = (None, h)"
| "obj_rewrite_loop od (f # fs) h = hthen (obj_rewrite_filter od f h) (obj_rewrite_loop od fs)"

definition obj_rewrite_filters :: "string \<Rightarrow> hval \<Rightarrow> heap \<Rightarrow> hout" where
  \<comment> \<open>the loop \<^verbatim>\<open>for f in filter_params\<close>; over anything but a list it has no item or
      raises on the first one\<close>
  "obj_rewrite_filters od filter_params h =
     (case filter_params of
        HRef a \<Rightarrow>
          (if a < length h then
             (case h ! a of
                HList fs \<Rightarrow> obj_rewrite_loop od fs h
              | HDict d \<Rightarrow> (if d = [] then (None, h) else (Some AttributeError, h)))
           else (Some TypeError, h))
      | HStr s \<Rightarrow> (if s = [] then (None, h) else (Some AttributeError, h))
      | _ \<Rightarrow> (Some TypeError, h))"

text \<open>
  The addresses a value and an object hold, and the two properties of a store that the
  copy establishes for the part of the store above \<open>n\<close>: a value refers only to objects
  above \<open>n\<close>, and so does every object above \<open>n\<close>.
\<close>

fun refs_of_val :: "hval \<Rightarrow> nat list" where
  "refs_of_val (HRef a) = [a]"
| "refs_of_val v = []"

fun refs_of_obj :: "hobj \<Rightarrow> nat list" where
  "refs_of_obj (HList xs) = concat (map refs_of_val xs)"
| "refs_of_obj (HDict d) = concat (map (\<lambda>kv. refs_of_val (snd kv)) d)"

definition fresh_val :: "nat \<Rightarrow> heap \<Rightarrow> hval \<Rightarrow> bool" where
  "fresh_val n h v = list_all (\<lambda>a. n \<le> a \<and> a < length h) (refs_of_val v)"

definition closed_from :: "nat \<Rightarrow> heap \<Rightarrow> bool" where
  "closed_from n h =
     list_all (\<lambda>ob. list_all (\<lambda>a. n \<le> a \<and> a < length h) (refs_of_obj ob)) (drop n h)"

definition frame :: "nat \<Rightarrow> heap \<Rightarrow> heap \<Rightarrow> bool" where
  \<comment> \<open>from \<open>h\<close> to \<open>h'\<close> no object is added and no object below \<open>n\<close> changes\<close>
  "frame n h h' = (length h' = length h \<and> take n h' = take n h \<and> closed_from n h')"

text \<open>
  \<^verbatim>\<open>copy.deepcopy\<close> belongs to the standard library. The model follows its algorithm for
  lists and dictionaries: an object that is in the memo is not copied again; otherwise
  the empty copy is created and entered in the memo, then filled with the copies of the
  items. The recursion is bounded by the recursion limit of the interpreter, beyond
  which Python raises RecursionError. An address outside the store, which no Python
  value holds, is an error of the model.
\<close>

type_synonym memo = "(nat \<times> nat) list"

fun copy_items ::
  "(hval \<Rightarrow> memo \<times> heap \<Rightarrow> (error + hval) \<times> memo \<times> heap) \<Rightarrow> nat \<Rightarrow> hval list
     \<Rightarrow> memo \<times> heap \<Rightarrow> error option \<times> memo \<times> heap" where
  \<comment> \<open>\<^verbatim>\<open>for a in x: y.append(deepcopy(a, memo))\<close>, the copy \<open>y\<close> being an address\<close>
  "copy_items rec y [] s = (None, s)"
| "copy_items rec y (x # xs) s =
     (case rec x s of
        (Inl e, s1) \<Rightarrow> (Some e, s1)
      | (Inr x', (memo, h)) \<Rightarrow>
          copy_items rec y xs
            (memo, h[y := (case h ! y of HList ys \<Rightarrow> HList (ys @ [x']) | ob \<Rightarrow> ob)]))"

fun copy_entries ::
  "(hval \<Rightarrow> memo \<times> heap \<Rightarrow> (error + hval) \<times> memo \<times> heap) \<Rightarrow> nat \<Rightarrow> (string \<times> hval) list
     \<Rightarrow> memo \<times> heap \<Rightarrow> error option \<times> memo \<times> heap" where
  \<comment> \<open>\<^verbatim>\<open>for key, value in x.items(): y[key] = deepcopy(value, memo)\<close>\<close>
  "copy_entries rec y [] s = (None, s)"
| "copy_entries rec y (kv # d) s =
     (case rec (snd kv) s of
        (Inl e, s1) \<Rightarrow> (Some e, s1)
      | (Inr x', (memo, h)) \<Rightarrow>
          copy_entries rec y d
            (memo, h[y := (case h ! y of HDict ys \<Rightarrow> HDict (hdict_set (fst kv) x' ys) | ob \<Rightarrow> ob)]))"

primrec deepcopy_rec :: "nat \<Rightarrow> hval \<Rightarrow> memo \<times> heap \<Rightarrow> (error + hval) \<times> memo \<times> heap" where
  "deepcopy_rec 0 x s = (Inl RecursionError, s)"
| "deepcopy_rec (Suc n) x s =
     (case x of
        HRef a \<Rightarrow>
          (case map_of (fst s) a of
             Some y \<Rightarrow> (Inr (HRef y), s)
           | None \<Rightarrow>
               (if a < length (snd s) then
                  (let y = length (snd s); memo1 = (a, y) # fst s in
                   case snd s ! a of
                     HList xs \<Rightarrow>
                       (case copy_items (deepcopy_rec n) y xs (memo1, snd s @ [HList []]) of
                          (Some e, s1) \<Rightarrow> (Inl e, s1)
                        | (None, s1) \<Rightarrow> (Inr (HRef y), s1))
                   | HDict d \<Rightarrow>
                       (case copy_entries (deepcopy_rec n) y d (memo1, snd s @ [HDict []]) of
                          (Some e, s1) \<Rightarrow> (Inl e, s1)
                        | (None, s1) \<Rightarrow> (Inr (HRef y), s1)))
                else (Inl TypeError, s)))
      | _ \<Rightarrow> (Inr x, s))"

definition deepcopy_model :: "nat \<Rightarrow> hval \<Rightarrow> heap \<Rightarrow> (error + hval) \<times> heap" where
  \<comment> \<open>\<^verbatim>\<open>copy.deepcopy(x)\<close>: the memo starts empty\<close>
  "deepcopy_model limit x h = (case deepcopy_rec limit x ([], h) of (r, memo, h1) \<Rightarrow> (r, h1))"

text \<open>The invariant of the copy, for the proof that it is a deep copy.\<close>

definition copy_inv :: "nat \<Rightarrow> memo \<times> heap \<Rightarrow> bool" where
  "copy_inv n s =
     (n \<le> length (snd s) \<and> closed_from n (snd s) \<and>
      list_all (\<lambda>p. n \<le> snd p \<and> snd p < length (snd s)) (fst s))"

definition copy_step :: "nat \<Rightarrow> memo \<times> heap \<Rightarrow> memo \<times> heap \<Rightarrow> bool" where
  "copy_step n s s' =
     (copy_inv n s' \<and> length (snd s) \<le> length (snd s') \<and> take n (snd s') = take n (snd s))"

definition copy_ok ::
  "nat \<Rightarrow> (hval \<Rightarrow> memo \<times> heap \<Rightarrow> (error + hval) \<times> memo \<times> heap) \<Rightarrow> bool" where
  "copy_ok n rec =
     (\<forall>x s r s'. copy_inv n s \<longrightarrow> rec x s = (r, s') \<longrightarrow>
        copy_step n s s' \<and> (\<forall>y. r = Inr y \<longrightarrow> fresh_val n (snd s') y))"

definition is_deep_copy :: "heap \<Rightarrow> (error + hval) \<times> heap \<Rightarrow> bool" where
  \<comment> \<open>what a deep copy is: the objects of \<open>h\<close> are as they were, and the result and
      all it reaches are new objects\<close>
  "is_deep_copy h r =
     (case r of (res, h1) \<Rightarrow>
        length h \<le> length h1 \<and> take (length h) h1 = h \<and>
        (case res of
           Inl e \<Rightarrow> True
         | Inr y \<Rightarrow> fresh_val (length h) h1 y \<and> closed_from (length h) h1))"

definition copy_and_rewrite ::
  "(hval \<Rightarrow> heap \<Rightarrow> (error + hval) \<times> heap) \<Rightarrow> string \<Rightarrow> hval \<Rightarrow> heap \<Rightarrow> hout" where
  \<comment> \<open>\<^verbatim>\<open>filter_params = copy.deepcopy(parameters['filters'])\<close>, then the loop\<close>
  "copy_and_rewrite deepcopy od filters h =
     (case deepcopy filters h of
        (Inl e, h1) \<Rightarrow> (Some e, h1)
      | (Inr filter_params, h1) \<Rightarrow> obj_rewrite_filters od filter_params h1)"

primrec value_of :: "nat \<Rightarrow> heap \<Rightarrow> hval \<Rightarrow> pv" where
  \<comment> \<open>the value behind an object, read to the given depth\<close>
  "value_of 0 h v = PNone"
| "value_of (Suc n) h v =
     (case v of
        HNone \<Rightarrow> PNone
      | HBool b \<Rightarrow> PBool b
      | HInt i \<Rightarrow> PInt i
      | HStr s \<Rightarrow> PStr s
      | HRef a \<Rightarrow>
          (if a < length h then
             (case h ! a of
                HList xs \<Rightarrow> PList (map (value_of n h) xs)
              | HDict d \<Rightarrow> PDict (map (\<lambda>kv. (fst kv, value_of n h (snd kv))) d))
           else PNone))"

definition cfg_heap :: heap where
  \<comment> \<open>a list of two filters at address 8: a WordAlignFilter with priors and a
      CrossEntropyFilter whose source model interpolates one more model\<close>
  "cfg_heap =
     [HDict [(''priors'', HStr ''align.priors''), (''threshold'', HInt 0)],
      HDict [(''WordAlignFilter'', HRef 0)],
      HList [HStr ''sub.arpa'', HInt 1],
      HList [HRef 2],
      HDict [(''filename'', HStr ''src.arpa''), (''interpolate'', HRef 3)],
      HDict [(''filename'', HStr ''tgt.arpa'')],
      HDict [(''src_lm_params'', HRef 4), (''tgt_lm_params'', HRef 5)],
      HDict [(''CrossEntropyFilter'', HRef 6)],
      HList [HRef 1, HRef 7]]"

section \<open>\<^verbatim>\<open>score_data\<close>\<close>

text \<open>
  The filter parameters reach \<^verbatim>\<open>score_data\<close> as a value. \<open>to_store\<close> gives the objects
  behind it: one object for every list and dictionary of the value, and one object for
  all the places where the value has the same \<open>PShared n\<close> (the first place is the one
  that is read). On these objects \<^verbatim>\<open>score_data\<close> makes its copy and runs its loop, as in
  the section on objects; what it hands to the pipeline is the value of the copy after
  the loop, read off the store. An acyclic store of \<open>k\<close> objects nests at most \<open>k\<close> deep,
  so reading to the depth \<open>k + 1\<close> reads the whole value.
\<close>

type_synonym loading = "(nat \<times> hval) list \<times> heap"

fun to_store :: "pv \<Rightarrow> loading \<Rightarrow> hval \<times> loading"
  and to_store_items :: "pv list \<Rightarrow> loading \<Rightarrow> hval list \<times> loading"
  and to_store_entries :: "(string \<times> pv) list \<Rightarrow> loading \<Rightarrow> (string \<times> hval) list \<times> loading"
where
  "to_store PNone s = (HNone, s)"
| "to_store (PBool b) s = (HBool b, s)"
| "to_store (PInt i) s = (HInt i, s)"
| "to_store (PStr x) s = (HStr x, s)"
| "to_store (PList xs) s =
     (case to_store_items xs s of
        (ys, seen, h) \<Rightarrow> (HRef (length h), seen, h @ [HList ys]))"
| "to_store (PDict d) s =
     (case to_store_entries d s of
        (e, seen, h) \<Rightarrow> (HRef (length h), seen, h @ [HDict e]))"
| "to_store (PShared n v) s =
     (case map_of (fst s) n of
        Some y \<Rightarrow> (y, s)
      | None \<Rightarrow> (case to_store v s of (y, seen, h) \<Rightarrow> (y, (n, y) # seen, h)))"
| "to_store_items [] s = ([], s)"
| "to_store_items (x # xs) s =
     (case to_store x s of
        (y, s1) \<Rightarrow> (case to_store_items xs s1 of (ys, s2) \<Rightarrow> (y # ys, s2)))"
| "to_store_entries [] s = ([], s)"
| "to_store_entries ((k, v) # d) s =
     (case to_store v s of
        (y, s1) \<Rightarrow> (case to_store_entries d s1 of (e, s2) \<Rightarrow> ((k, y) # e, s2)))"

definition rewritten_filters :: "nat \<Rightarrow> string \<Rightarrow> pv \<Rightarrow> error + pv" where
  \<comment> \<open>\<^verbatim>\<open>filter_params = copy.deepcopy(parameters['filters'])\<close> and the loop over
      \<^verbatim>\<open>filter_params\<close>; the result is the value of \<^verbatim>\<open>filter_params\<close> after the loop\<close>
  "rewritten_filters limit od filters =
     (case to_store filters ([], []) of
        (root, seen, h) \<Rightarrow>
          (case deepcopy_model limit root h of
             (Inl e, h1) \<Rightarrow> Inl e
           | (Inr filter_params, h1) \<Rightarrow>
               (case obj_rewrite_filters od filter_params h1 of
                  (Some e, h2) \<Rightarrow> Inl e
                | (None, h2) \<Rightarrow> Inr (value_of (Suc (length h2)) h2 filter_params))))"

definition score_data :: "'r ext \<Rightarrow> opusfilter \<Rightarrow> params \<Rightarrow> bool \<Rightarrow> 'r world \<Rightarrow> 'r outcome" where
  "score_data E self parameters overwrite w =
     on_ok (param_path parameters ''output'') w (\<lambda>out.
     let score_out = path_join (output_dir self) out in
     if skip_step overwrite w [score_out] then (None, w)
     else
       on_ok (bindE (getitem parameters ''filters'')
                (rewritten_filters (recursion_limit E) (output_dir self))) w
         (\<lambda>filter_params.
       on_ok (getitem parameters ''src_input'') w (\<lambda>src_input.
       on_ok (getitem parameters ''tgt_input'') w (\<lambda>tgt_input.
       on_ok (from_config E filter_params) w (\<lambda>filter_pipe.
       let w1 = open_write w score_out in
       on_ok (get_pairs E self src_input tgt_input w1) w1 (\<lambda>pairs_gen.
         (None, write_lines score_out
                  (map (\<lambda>score. json_dumps E score @ [newline]) (pscore filter_pipe pairs_gen))
                  w1)))))))"

section \<open>\<^verbatim>\<open>classify\<close>\<close>

definition classify :: "'r ext \<Rightarrow> opusfilter \<Rightarrow> params \<Rightarrow> bool \<Rightarrow> 'r world \<Rightarrow> 'r outcome" where
  \<comment> \<open>the classifier is built from the parameters, then asked for its best model\<close>
  "classify E self parameters overwrite w =
     and_then (filter_classifier E parameters w) (\<lambda>w1.
     on_ok (getitem parameters ''criterion'') w1 (\<lambda>criterion.
       find_and_assign E parameters criterion w1))"

section \<open>The step executor\<close>

type_synonym 'r handler = "params \<Rightarrow> bool \<Rightarrow> 'r world \<Rightarrow> 'r outcome"

definition step_functions :: "'r ext \<Rightarrow> opusfilter \<Rightarrow> string \<Rightarrow> 'r handler option" where
  \<comment> \<open>the dictionary \<^verbatim>\<open>self.step_functions\<close> that \<^verbatim>\<open>__init__\<close> builds\<close>
  "step_functions E self =
     map_of
       [(''opus_read'', read_from_opus E self),
        (''filter'', filter_data E self),
        (''concatenate'', concatenate E self),
        (''subset'', get_subset E self),
        (''train_ngram'', train_ngram E self),
        (''train_alignment'', train_alignment E self),
        (''score'', score_data E self),
        (''classify'', classify E self),
        (''order_by_rank'', order_by_rank self)]"

definition run_step :: "'r ext \<Rightarrow> opusfilter \<Rightarrow> bool \<Rightarrow> step \<Rightarrow> 'r world \<Rightarrow> 'r outcome" where
  \<comment> \<open>\<^verbatim>\<open>self.step_functions[step['type']](step['parameters'], overwrite=overwrite)\<close>\<close>
  "run_step E self overwrite st w =
     (case step_functions E self (stype st) of
        None \<Rightarrow> (Some (KeyError (stype st)), w)
      | Some handler \<Rightarrow> handler (sparams st) overwrite w)"

fun execute_loop :: "'r ext \<Rightarrow> opusfilter \<Rightarrow> bool \<Rightarrow> int option \<Rightarrow> (nat \<times> step) list \<Rightarrow> 'r world \<Rightarrow> 'r outcome" where
  \<comment> \<open>the loop of \<^verbatim>\<open>execute_steps\<close> over \<^verbatim>\<open>enumerate(self.configuration['steps'])\<close>\<close>
  "execute_loop E self overwrite lst [] w = (None, w)"
| "execute_loop E self overwrite lst (p # rest) w =
     (if (case lst of None \<Rightarrow> False | Some l \<Rightarrow> int (fst p) + 1 > l) then (None, w)
      else and_then (run_step E self overwrite (snd p) w)
             (execute_loop E self overwrite lst rest))"

definition execute_steps :: "'r ext \<Rightarrow> opusfilter \<Rightarrow> bool \<Rightarrow> int option \<Rightarrow> 'r world \<Rightarrow> 'r outcome" where
  "execute_steps E self overwrite lst w =
     execute_loop E self overwrite lst (List.enumerate 0 (steps (configuration self))) w"

definition list_index :: "'a list \<Rightarrow> int \<Rightarrow> error + 'a" where
  \<comment> \<open>\<^verbatim>\<open>xs[i]\<close>: a negative index counts from the end\<close>
  "list_index xs i =
     (if 0 \<le> i \<and> i < int (length xs) then Inr (xs ! nat i)
      else if i < 0 \<and> - int (length xs) \<le> i then Inr (xs ! nat (int (length xs) + i))
      else Inl IndexError)"

definition execute_step :: "'r ext \<Rightarrow> opusfilter \<Rightarrow> int \<Rightarrow> bool \<Rightarrow> 'r world \<Rightarrow> 'r outcome" where
  "execute_step E self num overwrite w =
     on_ok (list_index (steps (configuration self)) (if num < 0 then num else num - 1)) w
       (\<lambda>st. run_step E self overwrite st w)"

section \<open>What the standard library promises\<close>

definition sample_contract :: "'r ext \<Rightarrow> bool" where
  \<comment> \<open>\<^verbatim>\<open>random.sample(range(n), k)\<close> returns \<open>k\<close> distinct members of the population, and
      raises ValueError when \<open>k\<close> is negative or larger than the population\<close>
  "sample_contract E =
     (\<forall>n k r. case fst (random_sample E n k r) of
                 Inl e \<Rightarrow> e = ValueError \<and> (k < 0 \<or> int n < k)
               | Inr s \<Rightarrow> 0 \<le> k \<and> k \<le> int n \<and> length s = nat k \<and> distinct s
                          \<and> list_all (\<lambda>i. i < n) s)"

definition shuffle_contract :: "'r ext \<Rightarrow> bool" where
  \<comment> \<open>\<^verbatim>\<open>random.shuffle(lines)\<close> reorders the list\<close>
  "shuffle_contract E = (\<forall>ls r. mset (fst (random_shuffle E ls r)) = mset ls)"

section \<open>The shape of the lines of a text\<close>

definition line_ok :: "string \<Rightarrow> bool" where
  \<comment> \<open>a line as iteration yields it: not empty, no newline before its last character\<close>
  "line_ok l = (l \<noteq> [] \<and> newline \<notin> set (butlast l))"

definition lines_ok :: "string list \<Rightarrow> bool" where
  \<comment> \<open>the lines of one text: every line but the last one ends with a newline\<close>
  "lines_ok ls = (list_all line_ok ls \<and> list_all (\<lambda>l. last l = newline) (butlast ls))"

section \<open>Concrete inputs\<close>

text \<open>
  Stand-ins for the collaborators, used where a statement is evaluated on a concrete
  input: the sample is the last \<open>k\<close> indices, the shuffle reverses, a tokenizer returns
  its line, the other collaborators do nothing.
\<close>

definition det_ext :: "unit ext" where
  "det_ext =
     \<lparr>random_seed = (\<lambda>v r. r),
      random_sample = (\<lambda>n k r. (if k < 0 \<or> int n < k then Inl ValueError
                                  else Inr (rev [n - nat k..<n]), r)),
      random_shuffle = (\<lambda>ls r. (rev ls, r)),
      json_dumps = (\<lambda>v. ''{}''),
      py_str = (\<lambda>v. []),
      get_tokenize = (\<lambda>v s. s),
      from_config = (\<lambda>v. Inr \<lparr>pfilter = (\<lambda>ps. ps), pfilterfalse = (\<lambda>ps. []),
                                 pscore = map (\<lambda>p. PDict [])\<rparr>),
      opus_print_pairs = (\<lambda>args so to dd w. (None, w)),
      lm_tokenizer = (\<lambda>v. Inr (\<lambda>s. [s])),
      lm_train = (\<lambda>a b v w. (None, w)),
      make_priors = (\<lambda>g m v w. (None, w)),
      filter_classifier = (\<lambda>p w. (None, w)),
      find_and_assign = (\<lambda>p c w. (None, w)),
      recursion_limit = 1000\<rparr>"

definition plain_self :: opusfilter where
  \<comment> \<open>no output directory configured\<close>
  "plain_self = opusfilter_init \<lparr>common_output_directory = None, steps = []\<rparr>"

definition work_self :: opusfilter where
  \<comment> \<open>the output directory is \<^verbatim>\<open>work\<close>\<close>
  "work_self = opusfilter_init \<lparr>common_output_directory = Some ''work'', steps = []\<rparr>"

definition rank_world :: "unit world" where
  "rank_world =
     \<lparr>files = [''in.src'' \<mapsto> unlines [''A'', ''B'', ''C''],
               ''in.tgt'' \<mapsto> unlines [''a'', ''b'', ''c''],
               ''in.ranks'' \<mapsto> unlines [''3'', ''1'', ''2'']],
      wlog = [], rng = ()\<rparr>"

definition work_rank_world :: "unit world" where
  \<comment> \<open>the same three files, inside the output directory\<close>
  "work_rank_world =
     \<lparr>files = [''work/in.src'' \<mapsto> unlines [''A'', ''B'', ''C''],
               ''work/in.tgt'' \<mapsto> unlines [''a'', ''b'', ''c''],
               ''work/in.ranks'' \<mapsto> unlines [''3'', ''1'', ''2'']],
      wlog = [], rng = ()\<rparr>"

definition rank_params :: params where
  "rank_params =
     [(''input_src'', PStr ''in.src''), (''input_tgt'', PStr ''in.tgt''),
      (''input_ranks'', PStr ''in.ranks''), (''output_src'', PStr ''out.src''),
      (''output_tgt'', PStr ''out.tgt''), (''output_ranks'', PStr ''out.ranks'')]"

definition rank_step :: step where
  "rank_step = \<lparr>stype = ''order_by_rank'', sparams = rank_params\<rparr>"

definition cat_step :: step where
  "cat_step =
     \<lparr>stype = ''concatenate'',
      sparams = [(''inputs'', PList [PStr ''in.src'', PStr ''in.tgt'']),
                 (''output'', PStr ''all.txt'')]\<rparr>"

definition bogus_step :: step where
  "bogus_step = \<lparr>stype = ''bogus'', sparams = []\<rparr>"

definition bogus_self :: opusfilter where
  \<comment> \<open>a known step, then a step of an unknown kind, then a known step\<close>
  "bogus_self =
     opusfilter_init
       \<lparr>common_output_directory = Some ''work'', steps = [cat_step, bogus_step, rank_step]\<rparr>"

definition ragged_world :: "unit world" where
  \<comment> \<open>a source file of three lines, the last one without a newline; a target file of one\<close>
  "ragged_world =
     \<lparr>files = [''s.txt'' \<mapsto> ''one  '' @ [newline] @ ''two'' @ [newline] @ ''three'',
               ''t.txt'' \<mapsto> ''uno'' @ [newline]],
      wlog = [], rng = ()\<rparr>"

definition letters_world :: "unit world" where
  "letters_world =
     \<lparr>files = [''work/a.src'' \<mapsto> unlines [''a'', ''b'', ''c'', ''d''],
               ''work/a.tgt'' \<mapsto> unlines [''w'', ''x'', ''y'', ''z'']],
      wlog = [], rng = ()\<rparr>"

definition subset_params :: "int \<Rightarrow> bool \<Rightarrow> params" where
  \<comment> \<open>the parameters of a \<^verbatim>\<open>subset\<close> step of the given size, paired or shuffling\<close>
  "subset_params k shuffle =
     [(''src_input'', PStr ''a.src''), (''tgt_input'', PStr ''a.tgt''),
      (''src_output'', PStr ''s.src''), (''tgt_output'', PStr ''s.tgt''),
      (''size'', PInt k), (''shuffle_target'', PBool shuffle)]"

definition unended_world :: "unit world" where
  \<comment> \<open>two files of two lines each; the last line of the target file has no newline\<close>
  "unended_world =
     \<lparr>files = [''work/a.src'' \<mapsto> unlines [''a'', ''b''],
               ''work/a.tgt'' \<mapsto> unlines [''x''] @ ''y''],
      wlog = [], rng = ()\<rparr>"

definition lm_params_example :: pv where
  "lm_params_example = PDict [(''filename'', PStr ''lm.arpa'')]"

definition shared_lm_filters :: pv where
  \<comment> \<open>one dictionary of model parameters, used for the source and for the target\<close>
  "shared_lm_filters =
     PList [PDict [(''CrossEntropyFilter'',
       PDict [(''src_lm_params'', PShared 0 lm_params_example),
              (''tgt_lm_params'', PShared 0 lm_params_example)])]]"

definition twin_lm_filters :: pv where
  \<comment> \<open>two equal dictionaries of model parameters\<close>
  "twin_lm_filters =
     PList [PDict [(''CrossEntropyFilter'',
       PDict [(''src_lm_params'', lm_params_example),
              (''tgt_lm_params'', lm_params_example)])]]"

section \<open>Evaluation\<close>

lemmas io_defs = on_ok_def and_then_def bindE_def getitem_def dict_get_def param_path_def
  open_param_read_def open_read_def isfile_def read_text_def open_write_def fwrite_def
  write_lines_def write_row_def skip_step_def path_join_def unlines_def newline_def
  is_line_boundary_def sorted_py_def opusfilter_init_def Let_def

lemmas example_defs = det_ext_def plain_self_def work_self_def rank_world_def
  work_rank_world_def rank_params_def rank_step_def cat_step_def bogus_step_def
  bogus_self_def ragged_world_def letters_world_def subset_params_def
  unended_world_def

section \<open>Rank reordering\<close>

text \<open>
  The scenario of claim C1: source lines A, B, C with ranks 3, 1, 2. The rows are
  (A, 3), (B, 1), (C, 2); in non-increasing order of the rank they are
  (A, 3), (C, 2), (B, 1). The source output is therefore not C, A, B.
\<close>

theorem order_by_rank_scenario_not_CAB:
  "files (snd (order_by_rank plain_self rank_params False rank_world)) ''out.src''
     \<noteq> Some (unlines [''C'', ''A'', ''B''])"
  by (simp add: order_by_rank_def example_defs io_defs)

text \<open>
  C1, amended: on source lines A, B, C paired with rank lines 3, 1, 2,
  \<^verbatim>\<open>order_by_rank\<close> returns normally and writes the source lines in the order A, C, B
  (the target lines and the ranks in the same order of rows: ranks 3, 2, 1 compared as
  text).
\<close>

theorem order_by_rank_scenario_ACB:
  "fst (order_by_rank plain_self rank_params False rank_world) = None \<and>
   files (snd (order_by_rank plain_self rank_params False rank_world)) ''out.src''
     = Some (unlines [''A'', ''C'', ''B'']) \<and>
   files (snd (order_by_rank plain_self rank_params False rank_world)) ''out.tgt''
     = Some (unlines [''a'', ''c'', ''b'']) \<and>
   files (snd (order_by_rank plain_self rank_params False rank_world)) ''out.ranks''
     = Some (unlines [''3'', ''2'', ''1''])"
  by (simp add: order_by_rank_def example_defs io_defs)

section \<open>The step executor: unknown kinds and step numbers\<close>

lemma execute_loop_append:
  "execute_loop E self ow None (List.enumerate n (pre @ post)) w =
     and_then (execute_loop E self ow None (List.enumerate n pre) w)
       (execute_loop E self ow None (List.enumerate (n + length pre) post))"
proof (induction pre arbitrary: n w)
  case Nil
  show ?case by (simp add: and_then_def)
next
  case (Cons p pre)
  show ?case
    by (cases "run_step E self ow p w")
       (auto simp add: Cons.IH and_then_def split: option.splits prod.splits)
qed

text \<open>
  Against claim C2: in the configuration \<open>bogus_self\<close> a \<^verbatim>\<open>concatenate\<close> step comes before
  the step of unknown kind. Running the whole pipeline raises the KeyError, and by then
  the handler of the first step has run: it has opened and written its output file.
\<close>

theorem unknown_step_runs_earlier_steps:
  "fst (execute_steps det_ext bogus_self False None work_rank_world)
     = Some (KeyError ''bogus'') \<and>
   files work_rank_world ''work/all.txt'' = None \<and>
   files (snd (execute_steps det_ext bogus_self False None work_rank_world)) ''work/all.txt''
     = Some (unlines [''A'', ''B'', ''C'', ''a'', ''b'', ''c'']) \<and>
   wlog (snd (execute_steps det_ext bogus_self False None work_rank_world))
     = [''work/all.txt'']"
  by (simp add: execute_steps_def run_step_def step_functions_def concatenate_def
        example_defs io_defs enumerate_eq_zip)

text \<open>
  C2, amended: when the step list is \<open>pre @ s # post\<close> and \<open>s\<close> is of an unknown kind,
  running the whole pipeline runs the steps of \<open>pre\<close> in order; if one of them raises,
  that exception ends the run; otherwise the run ends with the KeyError of the unknown
  kind, in the world the steps of \<open>pre\<close> have left. No handler is invoked for \<open>s\<close> or
  for a step of \<open>post\<close>.
\<close>

theorem unknown_step_raises_when_reached:
  assumes "steps (configuration self) = pre @ s # post"
    and "step_functions E self (stype s) = None"
  shows "execute_steps E self overwrite None w =
           (case execute_loop E self overwrite None (List.enumerate 0 pre) w of
              (Some e, w') \<Rightarrow> (Some e, w')
            | (None, w') \<Rightarrow> (Some (KeyError (stype s)), w'))"
  using assms
  by (simp add: execute_steps_def execute_loop_append run_step_def and_then_def
        split: prod.splits option.splits)

theorem unknown_step_raises_when_reached_witness:
  "steps (configuration bogus_self) = [cat_step] @ bogus_step # [rank_step] \<and>
   step_functions det_ext bogus_self (stype bogus_step) = None \<and>
   fst (execute_steps det_ext bogus_self False None work_rank_world)
     = Some (KeyError ''bogus'') \<and>
   snd (execute_steps det_ext bogus_self False None work_rank_world)
     = snd (execute_loop det_ext bogus_self False None (List.enumerate 0 [cat_step])
              work_rank_world)"
proof -
  have h1: "steps (configuration bogus_self) = [cat_step] @ bogus_step # [rank_step]"
    by (simp add: bogus_self_def opusfilter_init_def)
  have h2: "step_functions det_ext bogus_self (stype bogus_step) = None"
    by (simp add: step_functions_def bogus_step_def)
  have run: "fst (execute_loop det_ext bogus_self False None (List.enumerate 0 [cat_step])
                    work_rank_world) = None"
    by (simp add: run_step_def step_functions_def concatenate_def example_defs io_defs
          enumerate_eq_zip)
  show ?thesis
    using unknown_step_raises_when_reached [OF h1 h2, of False work_rank_world] h1 h2 run
    by (simp add: bogus_step_def split: prod.splits option.splits)
qed

lemma list_index_minus_one: "xs \<noteq> [] \<Longrightarrow> list_index xs (- 1) = Inr (last xs)"
  by (cases xs rule: rev_cases) (simp_all add: list_index_def)

text \<open>
  C10: with a non-empty step list, \<^verbatim>\<open>execute_step\<close> with step number 0 does what it
  does with step number -1: it looks up the kind of the last step of the list in the
  handler table and calls that handler with the parameters of the last step (index
  \<open>0 - 1\<close> is not taken for a negative step number, but it is a negative index). It
  raises no \<^verbatim>\<open>IndexError\<close>, and \<^verbatim>\<open>KeyError\<close> only when the kind of the last step has no
  handler. In the example the list is concatenate, an unknown kind, then
  \<^verbatim>\<open>order_by_rank\<close>: step number 0 writes the three ranked files and not the file of
  the first step.
\<close>

theorem execute_step_zero_is_last:
  "steps (configuration self) \<noteq> [] \<Longrightarrow>
   execute_step E self 0 overwrite w = execute_step E self (- 1) overwrite w \<and>
   execute_step E self 0 overwrite w
     = run_step E self overwrite (last (steps (configuration self))) w \<and>
   execute_step E self 0 overwrite w
     = (case step_functions E self (stype (last (steps (configuration self)))) of
          None \<Rightarrow> (Some (KeyError (stype (last (steps (configuration self))))), w)
        | Some handler \<Rightarrow> handler (sparams (last (steps (configuration self)))) overwrite w)"
  by (simp add: execute_step_def list_index_minus_one on_ok_def run_step_def)

theorem execute_step_zero_is_last_witness:
  "steps (configuration bogus_self) \<noteq> [] \<and>
   execute_step det_ext bogus_self 0 False rank_world
     = execute_step det_ext bogus_self (- 1) False rank_world \<and>
   execute_step det_ext bogus_self 0 False rank_world
     = order_by_rank bogus_self rank_params False rank_world \<and>
   fst (execute_step det_ext bogus_self 0 False rank_world) = None \<and>
   files (snd (execute_step det_ext bogus_self 0 False rank_world)) ''out.src''
     = Some (unlines [''A'', ''C'', ''B'']) \<and>
   files (snd (execute_step det_ext bogus_self 0 False rank_world)) ''out.tgt''
     = Some (unlines [''a'', ''c'', ''b'']) \<and>
   files (snd (execute_step det_ext bogus_self 0 False rank_world)) ''out.ranks''
     = Some (unlines [''3'', ''2'', ''1'']) \<and>
   files (snd (execute_step det_ext bogus_self 0 False rank_world)) ''work/all.txt'' = None \<and>
   wlog (snd (execute_step det_ext bogus_self 0 False rank_world))
     = [''out.src'', ''out.tgt'', ''out.ranks'']"
proof -
  have h: "steps (configuration bogus_self) \<noteq> []"
    by (simp add: bogus_self_def opusfilter_init_def)
  have l: "last (steps (configuration bogus_self)) = rank_step"
    by (simp add: bogus_self_def opusfilter_init_def)
  have f: "step_functions det_ext bogus_self (stype rank_step) = Some (order_by_rank bogus_self)"
    by (simp add: step_functions_def rank_step_def)
  have p: "sparams rank_step = rank_params"
    by (simp add: rank_step_def)
  note z = execute_step_zero_is_last [OF h, of det_ext False rank_world, unfolded l f p, simplified]
  have e: "execute_step det_ext bogus_self 0 False rank_world
             = order_by_rank bogus_self rank_params False rank_world"
    using z by blast
  have m: "execute_step det_ext bogus_self 0 False rank_world
             = execute_step det_ext bogus_self (- 1) False rank_world"
    using z by blast
  have r: "fst (order_by_rank bogus_self rank_params False rank_world) = None"
    by (simp add: order_by_rank_def example_defs io_defs)
  have s: "files (snd (order_by_rank bogus_self rank_params False rank_world)) ''out.src''
             = Some (unlines [''A'', ''C'', ''B''])"
    by (simp add: order_by_rank_def example_defs io_defs)
  have t: "files (snd (order_by_rank bogus_self rank_params False rank_world)) ''out.tgt''
             = Some (unlines [''a'', ''c'', ''b''])"
    by (simp add: order_by_rank_def example_defs io_defs)
  have k: "files (snd (order_by_rank bogus_self rank_params False rank_world)) ''out.ranks''
             = Some (unlines [''3'', ''2'', ''1''])"
    by (simp add: order_by_rank_def example_defs io_defs)
  have a: "files (snd (order_by_rank bogus_self rank_params False rank_world)) ''work/all.txt''
             = None"
    by (simp add: order_by_rank_def example_defs io_defs)
  have g: "wlog (snd (order_by_rank bogus_self rank_params False rank_world))
             = [''out.src'', ''out.tgt'', ''out.ranks'']"
    by (simp add: order_by_rank_def example_defs io_defs)
  show ?thesis
    unfolding e using h m [unfolded e] r s t k a g by blast
qed

section \<open>Skipping a step whose outputs exist\<close>

text \<open>
  Seven handlers start by joining their output paths with the output directory and
  return at once when the overwrite flag is off and the outputs exist.
\<close>

lemma read_from_opus_skip:
  "param_path parameters ''src_output'' = Inr so \<Longrightarrow>
   param_path parameters ''tgt_output'' = Inr to \<Longrightarrow>
   skip_step overwrite w [path_join (output_dir self) so, path_join (output_dir self) to] \<Longrightarrow>
   read_from_opus E self parameters overwrite w = (None, w)"
  by (simp add: read_from_opus_def on_ok_def)

lemma filter_data_skip:
  "param_path parameters ''src_output'' = Inr so \<Longrightarrow>
   param_path parameters ''tgt_output'' = Inr to \<Longrightarrow>
   skip_step overwrite w [path_join (output_dir self) so, path_join (output_dir self) to] \<Longrightarrow>
   filter_data E self parameters overwrite w = (None, w)"
  by (simp add: filter_data_def on_ok_def)

lemma concatenate_skip:
  "param_path parameters ''output'' = Inr out \<Longrightarrow>
   skip_step overwrite w [path_join (output_dir self) out] \<Longrightarrow>
   concatenate E self parameters overwrite w = (None, w)"
  by (simp add: concatenate_def on_ok_def)

lemma get_subset_skip:
  "param_path parameters ''src_input'' = Inr si \<Longrightarrow>
   param_path parameters ''tgt_input'' = Inr ti \<Longrightarrow>
   param_path parameters ''src_output'' = Inr so \<Longrightarrow>
   param_path parameters ''tgt_output'' = Inr to \<Longrightarrow>
   skip_step overwrite w [path_join (output_dir self) so, path_join (output_dir self) to] \<Longrightarrow>
   get_subset E self parameters overwrite w = (None, w)"
  by (simp add: get_subset_def on_ok_def)

lemma train_ngram_skip:
  "param_path parameters ''model'' = Inr out \<Longrightarrow>
   skip_step overwrite w [path_join (output_dir self) out] \<Longrightarrow>
   train_ngram E self parameters overwrite w = (None, w)"
  by (simp add: train_ngram_def on_ok_def)

lemma train_alignment_skip:
  "param_path parameters ''output'' = Inr out \<Longrightarrow>
   skip_step overwrite w [path_join (output_dir self) out] \<Longrightarrow>
   train_alignment E self parameters overwrite w = (None, w)"
  by (simp add: train_alignment_def on_ok_def)

lemma score_data_skip:
  "param_path parameters ''output'' = Inr out \<Longrightarrow>
   skip_step overwrite w [path_join (output_dir self) out] \<Longrightarrow>
   score_data E self parameters overwrite w = (None, w)"
  by (simp add: score_data_def on_ok_def)

lemma isfile_fwrite: "isfile w q \<Longrightarrow> isfile (fwrite w p s) q"
  by (simp add: isfile_def fwrite_def)

lemma isfile_write_lines: "isfile w q \<Longrightarrow> isfile (write_lines p ls w) q"
  unfolding write_lines_def
  by (induction ls arbitrary: w) (simp_all add: isfile_fwrite)

lemma isfile_concatenate_loop:
  "isfile w q \<Longrightarrow> isfile (snd (concatenate_loop od outfile inputs w)) q"
proof (induction inputs arbitrary: w)
  case Nil
  then show ?case by simp
next
  case (Cons infile rest)
  show ?case
  proof (cases "bindE (as_path infile) (\<lambda>p. open_read w (path_join od p))")
    case (Inl e)
    with Cons.prems show ?thesis by (simp add: on_ok_def)
  next
    case (Inr inf)
    with Cons.IH [OF isfile_write_lines [OF Cons.prems]] show ?thesis
      by (simp add: on_ok_def)
  qed
qed

text \<open>
  So a \<^verbatim>\<open>concatenate\<close> step that has returned normally does nothing when it is invoked
  again with the overwrite flag off.
\<close>

lemma concatenate_twice:
  assumes "concatenate E self parameters False w = (None, w1)"
  shows "concatenate E self parameters False w1 = (None, w1)"
proof (cases "param_path parameters ''output''")
  case (Inl e)
  with assms show ?thesis by (simp add: concatenate_def on_ok_def)
next
  case (Inr out)
  let ?outfile = "path_join (output_dir self) out"
  show ?thesis
  proof (cases "skip_step False w [?outfile]")
    case True
    with assms Inr have "w1 = w" by (simp add: concatenate_def on_ok_def)
    with assms show ?thesis by simp
  next
    case False
    let ?w0 = "open_write w ?outfile"
    have f0: "isfile ?w0 ?outfile" by (simp add: isfile_def open_write_def)
    have "isfile w1 ?outfile"
    proof (cases "bindE (getitem parameters ''inputs'') as_iterable")
      case (Inl e)
      with assms Inr False show ?thesis by (simp add: concatenate_def on_ok_def Let_def)
    next
      case (Inr inputs)
      with assms \<open>param_path parameters ''output'' = Inr out\<close> False
      have "w1 = snd (concatenate_loop (output_dir self) ?outfile inputs ?w0)"
        by (simp add: concatenate_def on_ok_def Let_def)
      with isfile_concatenate_loop [OF f0] show ?thesis by simp
    qed
    then have "skip_step False w1 [?outfile]" by (simp add: skip_step_def)
    with Inr show ?thesis by (rule concatenate_skip)
  qed
qed

text \<open>
  C3: \<^verbatim>\<open>order_by_rank\<close> takes the overwrite flag and never reads it. Run twice with the
  flag off, the step finds its three outputs in place after the first run and still
  opens them for writing again in the second run: it does not skip.
\<close>

theorem order_by_rank_runs_again:
  "list_all (isfile (snd (run_step det_ext plain_self False rank_step rank_world)))
     [''out.src'', ''out.tgt'', ''out.ranks''] \<and>
   wlog (snd (run_step det_ext plain_self False rank_step rank_world))
     = [''out.src'', ''out.tgt'', ''out.ranks''] \<and>
   fst (run_step det_ext plain_self False rank_step
          (snd (run_step det_ext plain_self False rank_step rank_world))) = None \<and>
   wlog (snd (run_step det_ext plain_self False rank_step
                (snd (run_step det_ext plain_self False rank_step rank_world))))
     = [''out.src'', ''out.tgt'', ''out.ranks'', ''out.src'', ''out.tgt'', ''out.ranks'']"
  by (simp add: run_step_def step_functions_def order_by_rank_def example_defs io_defs)

section \<open>Paths and the output directory\<close>

text \<open>
  C4: \<^verbatim>\<open>order_by_rank\<close> opens the paths of its parameters as they are. With the output
  directory \<^verbatim>\<open>work\<close> and the three input files inside it, the step does not find
  \<^verbatim>\<open>in.src\<close>; with the input files in the current directory it reads them there and
  writes its outputs there, not under \<^verbatim>\<open>work\<close>.
\<close>

theorem order_by_rank_ignores_output_dir:
  "order_by_rank work_self rank_params False work_rank_world
     = (Some (FileNotFoundError ''in.src''), work_rank_world) \<and>
   fst (order_by_rank work_self rank_params False rank_world) = None \<and>
   files (snd (order_by_rank work_self rank_params False rank_world)) ''out.src''
     = Some (unlines [''A'', ''C'', ''B'']) \<and>
   files (snd (order_by_rank work_self rank_params False rank_world)) ''work/out.src'' = None \<and>
   wlog (snd (order_by_rank work_self rank_params False rank_world))
     = [''out.src'', ''out.tgt'', ''out.ranks'']"
  by (simp add: order_by_rank_def example_defs io_defs)

section \<open>The pair generator\<close>

lemma rstrip_Nil: "rstrip [] = []"
  by (simp add: rstrip_def)

lemma length_pair_loop: "length (pair_loop st tt src tgt) = length src"
  by (induction src arbitrary: tgt) (auto split: prod.splits)

lemma nth_pair_loop:
  "i < length src \<Longrightarrow>
   pair_loop st tt src tgt ! i =
     (st (rstrip (src ! i)), tt (rstrip (if i < length tgt then tgt ! i else [])))"
proof (induction src arbitrary: tgt i)
  case Nil
  then show ?case by simp
next
  case (Cons l src)
  show ?case
  proof (cases i)
    case 0
    then show ?thesis by (cases tgt) simp_all
  next
    case (Suc j)
    with Cons.prems have "j < length src" by simp
    from Cons.IH [OF this] Suc show ?thesis by (cases tgt) simp_all
  qed
qed

text \<open>
  C7: when both files exist, the pair generator yields one pair per line of the source
  file, in order, and no more. Pair \<open>i\<close> holds the tokenized source line \<open>i\<close> and the
  tokenized target line \<open>i\<close>, both stripped on the right; past the end of the target
  file the target line is the empty string, so the target side is the tokenizer's value
  on the empty string, and nothing is raised.
\<close>

theorem pair_generator_one_pair_per_source_line:
  assumes "files w source_file_name = Some src_text"
    and "files w target_file_name = Some tgt_text"
  shows "\<exists>ps. pair_generator E source_file_name target_file_name src_tokenizer tgt_tokenizer w
               = Inr ps \<and>
              length ps = length (iter_lines src_text) \<and>
              (\<forall>i < length ps.
                 ps ! i = (get_tokenize E src_tokenizer (rstrip (iter_lines src_text ! i)),
                           get_tokenize E tgt_tokenizer
                             (rstrip (if i < length (iter_lines tgt_text)
                                      then iter_lines tgt_text ! i else [])))) \<and>
              (\<forall>i < length ps. length (iter_lines tgt_text) \<le> i \<longrightarrow>
                 snd (ps ! i) = get_tokenize E tgt_tokenizer [])"
  using assms
  by (simp add: pair_generator_def bindE_def open_read_def isfile_def read_text_def
        length_pair_loop nth_pair_loop rstrip_Nil)

theorem pair_generator_one_pair_per_source_line_witness:
  "files ragged_world ''s.txt''
     = Some (''one  '' @ [newline] @ ''two'' @ [newline] @ ''three'') \<and>
   files ragged_world ''t.txt'' = Some (''uno'' @ [newline]) \<and>
   pair_generator det_ext ''s.txt'' ''t.txt'' PNone PNone ragged_world
     = Inr [(''one'', ''uno''), (''two'', []), (''three'', [])]"
proof -
  have h1: "files ragged_world ''s.txt''
              = Some (''one  '' @ [newline] @ ''two'' @ [newline] @ ''three'')"
    by (simp add: ragged_world_def)
  have h2: "files ragged_world ''t.txt'' = Some (''uno'' @ [newline])"
    by (simp add: ragged_world_def)
  have ls: "iter_lines (''one  '' @ [newline] @ ''two'' @ [newline] @ ''three'')
              = [''one  '' @ [newline], ''two'' @ [newline], ''three'']"
           "iter_lines (''uno'' @ [newline]) = [''uno'' @ [newline]]"
    by (simp_all add: newline_def)
  from pair_generator_one_pair_per_source_line [OF h1 h2, of det_ext PNone PNone]
  obtain ps
    where ps: "pair_generator det_ext ''s.txt'' ''t.txt'' PNone PNone ragged_world = Inr ps"
      and len: "length ps = 3"
      and nth: "\<And>i. i < 3 \<Longrightarrow>
                  ps ! i =
                    (get_tokenize det_ext PNone
                       (rstrip ([''one  '' @ [newline], ''two'' @ [newline], ''three''] ! i)),
                     get_tokenize det_ext PNone
                       (rstrip (if i < 1 then [''uno'' @ [newline]] ! i else [])))"
    unfolding ls by auto
  from len obtain a b c where abc: "ps = [a, b, c]"
    by (auto simp add: numeral_3_eq_3 length_Suc_conv)
  have "ps = [(''one'', ''uno''), (''two'', []), (''three'', [])]"
    using nth [of 0] nth [of 1] nth [of 2] unfolding abc
    by (simp add: det_ext_def rstrip_def is_space_def newline_def)
  then show ?thesis using h1 h2 ps by simp
qed

section \<open>Subset sampling\<close>

lemma foldl_enumerate_last:
  "foldl (\<lambda>t p. int (fst p)) a (List.enumerate n xs)
     = (if xs = [] then a else int (n + length xs) - 1)"
  by (induction xs arbitrary: n a) auto

lemma get_total_lines_eq:
  "files w p = Some t \<Longrightarrow> get_total_lines w p = Inr (int (length (iter_lines t)))"
  by (simp add: get_total_lines_def bindE_def open_read_def isfile_def read_text_def
        foldl_enumerate_last)

lemma sample_too_large:
  "sample_contract E \<Longrightarrow> int n < k \<Longrightarrow> fst (random_sample E n k r) = Inl ValueError"
  unfolding sample_contract_def
  by (erule allE [of _ n], erule allE [of _ k], erule allE [of _ r])
     (auto split: sum.splits)

lemma det_ext_sample_contract: "sample_contract det_ext"
  by (auto simp add: sample_contract_def det_ext_def list_all_iff)

text \<open>
  C9: a \<^verbatim>\<open>subset\<close> step that is not skipped, on a source file of \<open>T\<close> lines and with a
  size \<open>K > T\<close>, raises the ValueError of \<^verbatim>\<open>random.sample\<close>; no file has been opened for
  writing and no file has changed (in either mode: the sample is drawn before the
  first output is opened).
\<close>

theorem get_subset_size_too_large:
  assumes "sample_contract E"
    and "param_path parameters ''src_input'' = Inr si"
    and "param_path parameters ''tgt_input'' = Inr ti"
    and "param_path parameters ''src_output'' = Inr so"
    and "param_path parameters ''tgt_output'' = Inr to"
    and "\<not> skip_step overwrite w
             [path_join (output_dir self) so, path_join (output_dir self) to]"
    and "getitem parameters ''size'' = Inr (PInt K)"
    and "files w (path_join (output_dir self) si) = Some src_text"
    and "int (length (iter_lines src_text)) < K"
  shows "fst (get_subset E self parameters overwrite w) = Some ValueError \<and>
         files (snd (get_subset E self parameters overwrite w)) = files w \<and>
         wlog (snd (get_subset E self parameters overwrite w)) = wlog w"
proof -
  let ?w1 = "w\<lparr>rng := random_seed E (dict_get parameters ''seed'' PNone) (rng w)\<rparr>"
  have tot: "get_total_lines ?w1 (path_join (output_dir self) si)
               = Inr (int (length (iter_lines src_text)))"
    using assms(8) by (simp add: get_total_lines_eq)
  have smp: "fst (random_sample E (length (iter_lines src_text)) K (rng ?w1)) = Inl ValueError"
    using assms(1,9) by (rule sample_too_large)
  have draw: "\<And>k. draw_sample E (int (length (iter_lines src_text))) (PInt K) ?w1 k
                = (Some ValueError,
                   ?w1\<lparr>rng := snd (random_sample E (length (iter_lines src_text)) K (rng ?w1))\<rparr>)"
    using smp
    by (cases "random_sample E (length (iter_lines src_text)) K (rng ?w1)")
       (auto simp add: draw_sample_def on_ok_def)
  show ?thesis
    using assms(2-7) by (simp add: get_subset_def on_ok_def tot draw Let_def)
qed

theorem get_subset_size_too_large_witness:
  "sample_contract det_ext \<and>
   param_path (subset_params 5 False) ''src_input'' = Inr ''a.src'' \<and>
   param_path (subset_params 5 False) ''tgt_input'' = Inr ''a.tgt'' \<and>
   param_path (subset_params 5 False) ''src_output'' = Inr ''s.src'' \<and>
   param_path (subset_params 5 False) ''tgt_output'' = Inr ''s.tgt'' \<and>
   \<not> skip_step False letters_world
        [path_join (output_dir work_self) ''s.src'',
         path_join (output_dir work_self) ''s.tgt''] \<and>
   getitem (subset_params 5 False) ''size'' = Inr (PInt 5) \<and>
   files letters_world (path_join (output_dir work_self) ''a.src'')
     = Some (unlines [''a'', ''b'', ''c'', ''d'']) \<and>
   int (length (iter_lines (unlines [''a'', ''b'', ''c'', ''d'']))) < 5 \<and>
   fst (get_subset det_ext work_self (subset_params 5 False) False letters_world)
     = Some ValueError \<and>
   files (snd (get_subset det_ext work_self (subset_params 5 False) False letters_world))
     = files letters_world \<and>
   wlog (snd (get_subset det_ext work_self (subset_params 5 False) False letters_world))
     = wlog letters_world"
proof -
  have h2: "param_path (subset_params 5 False) ''src_input'' = Inr ''a.src''"
    and h3: "param_path (subset_params 5 False) ''tgt_input'' = Inr ''a.tgt''"
    and h4: "param_path (subset_params 5 False) ''src_output'' = Inr ''s.src''"
    and h5: "param_path (subset_params 5 False) ''tgt_output'' = Inr ''s.tgt''"
    and h7: "getitem (subset_params 5 False) ''size'' = Inr (PInt 5)"
    by (simp_all add: subset_params_def param_path_def getitem_def bindE_def)
  have h6: "\<not> skip_step False letters_world
                [path_join (output_dir work_self) ''s.src'',
                 path_join (output_dir work_self) ''s.tgt'']"
    by (simp add: example_defs io_defs)
  have h8: "files letters_world (path_join (output_dir work_self) ''a.src'')
              = Some (unlines [''a'', ''b'', ''c'', ''d''])"
    by (simp add: example_defs io_defs)
  have h9: "int (length (iter_lines (unlines [''a'', ''b'', ''c'', ''d'']))) < 5"
    by (simp add: unlines_def newline_def)
  show ?thesis
    using get_subset_size_too_large [OF det_ext_sample_contract h2 h3 h4 h5 h6 h7 h8 h9]
      det_ext_sample_contract h2 h3 h4 h5 h6 h7 h8 h9
    by simp
qed

section \<open>Lines selected by index\<close>

lemma iter_lines_line: "line_ok l \<Longrightarrow> iter_lines l = [l]"
proof (induction l)
  case Nil
  then show ?case by (simp add: line_ok_def)
next
  case (Cons c cs)
  show ?case
  proof (cases "cs = []")
    case True
    then show ?thesis by simp
  next
    case False
    with Cons.prems have "c \<noteq> newline" and "line_ok cs"
      by (auto simp add: line_ok_def)
    with Cons.IH show ?thesis by simp
  qed
qed

lemma iter_lines_append_line:
  "line_ok l \<Longrightarrow> last l = newline \<Longrightarrow> iter_lines (l @ s) = l # iter_lines s"
proof (induction l)
  case Nil
  then show ?case by (simp add: line_ok_def)
next
  case (Cons c cs)
  show ?case
  proof (cases "cs = []")
    case True
    with Cons.prems show ?thesis by simp
  next
    case False
    with Cons.prems have "c \<noteq> newline" and "line_ok cs" and "last cs = newline"
      by (auto simp add: line_ok_def)
    with Cons.IH show ?thesis by simp
  qed
qed

lemma iter_lines_concat: "lines_ok ls \<Longrightarrow> iter_lines (concat ls) = ls"
proof (induction ls)
  case Nil
  then show ?case by simp
next
  case (Cons l ls)
  show ?case
  proof (cases "ls = []")
    case True
    with Cons.prems show ?thesis by (simp add: lines_ok_def iter_lines_line)
  next
    case False
    with Cons.prems have "line_ok l" and "last l = newline" and "lines_ok ls"
      by (auto simp add: lines_ok_def)
    with Cons.IH show ?thesis by (simp add: iter_lines_append_line)
  qed
qed

lemma lines_ok_iter_lines: "lines_ok (iter_lines s)"
proof (induction s)
  case Nil
  show ?case by (simp add: lines_ok_def)
next
  case (Cons c cs)
  show ?case
  proof (cases "c = newline")
    case True
    with Cons.IH show ?thesis by (auto simp add: lines_ok_def line_ok_def)
  next
    case False
    show ?thesis
    proof (cases "iter_lines cs")
      case Nil
      with False show ?thesis by (simp add: lines_ok_def line_ok_def)
    next
      case (Cons l ls')
      with Cons.IH False show ?thesis
        by (auto simp add: lines_ok_def line_ok_def)
    qed
  qed
qed

lemma lines_ok_select:
  assumes "lines_ok ls" and "sorted_wrt (<) js" and "list_all (\<lambda>i. i < length ls) js"
  shows "lines_ok (map (\<lambda>i. ls ! i) js)"
proof -
  have a: "list_all line_ok (map (\<lambda>i. ls ! i) js)"
    using assms(1,3) by (auto simp add: lines_ok_def list_all_iff)
  have b: "last (ls ! i) = newline" if "i \<in> set (butlast js)" for i
  proof -
    from that have ne: "js \<noteq> []" by auto
    then have js: "js = butlast js @ [last js]" by simp
    from assms(2) have "sorted_wrt (<) (butlast js @ [last js])" using js by simp
    then have "i < last js" using that by (simp add: sorted_wrt_append)
    moreover have "last js < length ls"
      using assms(3) ne by (simp add: list_all_iff)
    ultimately have "i < length (butlast ls)" by simp
    then have "butlast ls ! i \<in> set (butlast ls)" by (rule nth_mem)
    moreover have "butlast ls ! i = ls ! i"
      using \<open>i < length (butlast ls)\<close> by (simp add: nth_butlast)
    ultimately show ?thesis using assms(1) by (auto simp add: lines_ok_def list_all_iff)
  qed
  show ?thesis
    using a b by (simp add: lines_ok_def list_all_iff map_butlast [symmetric])
qed

lemma yield_loop_select:
  "sorted_wrt (<) (c # cs) \<Longrightarrow> n \<le> c \<Longrightarrow>
   list_all (\<lambda>i. i < n + length xs) (c # cs) \<Longrightarrow>
   yield_loop c (rev cs) (List.enumerate n xs) = map (\<lambda>i. xs ! (i - n)) (c # cs)"
proof (induction xs arbitrary: n c cs)
  case Nil
  then show ?case by simp
next
  case (Cons x xs)
  show ?case
  proof (cases "n = c")
    case True
    show ?thesis
    proof (cases cs)
      case Nil
      with True show ?thesis by simp
    next
      case (Cons c2 cs2)
      with Cons.prems True have "sorted_wrt (<) (c2 # cs2)" and "Suc n \<le> c2"
        and "list_all (\<lambda>i. i < Suc n + length xs) (c2 # cs2)"
        by (auto simp add: list_all_iff)
      from Cons.IH [OF this] have
        "yield_loop c2 (rev cs2) (List.enumerate (Suc n) xs)
           = map (\<lambda>i. xs ! (i - Suc n)) (c2 # cs2)" .
      moreover have "map (\<lambda>i. (x # xs) ! (i - n)) (c2 # cs2)
                       = map (\<lambda>i. xs ! (i - Suc n)) (c2 # cs2)"
        using \<open>Suc n \<le> c2\<close> \<open>sorted_wrt (<) (c2 # cs2)\<close>
        by (auto simp add: nth_Cons')
      ultimately show ?thesis using True Cons by simp
    qed
  next
    case False
    with Cons.prems have "sorted_wrt (<) (c # cs)" and "Suc n \<le> c"
      and "list_all (\<lambda>i. i < Suc n + length xs) (c # cs)"
      by (auto simp add: list_all_iff)
    from Cons.IH [OF this] have
      "yield_loop c (rev cs) (List.enumerate (Suc n) xs)
         = map (\<lambda>i. xs ! (i - Suc n)) (c # cs)" .
    moreover have "map (\<lambda>i. (x # xs) ! (i - n)) (c # cs)
                     = map (\<lambda>i. xs ! (i - Suc n)) (c # cs)"
      using \<open>Suc n \<le> c\<close> \<open>sorted_wrt (<) (c # cs)\<close>
      by (auto simp add: nth_Cons')
    ultimately show ?thesis using False by simp
  qed
qed

lemma yield_subset_select:
  assumes "distinct indices" and "list_all (\<lambda>i. i < length xs) indices"
  shows "yield_subset xs indices = map (\<lambda>i. xs ! i) (sort indices)"
proof (cases "indices = []")
  case True
  then show ?thesis by (simp add: yield_subset_def)
next
  case False
  have srt: "sort (rev indices) = sort indices"
    by (rule properties_for_sort) simp_all
  from False have "sort indices \<noteq> []" by (metis length_0_conv length_sort)
  then obtain c cs where ccs: "sort indices = c # cs" by (cases "sort indices") auto
  have strict: "sorted_wrt (<) (c # cs)"
    using assms(1) ccs by (metis distinct_sort sorted_sort strict_sorted_iff)
  have rng: "list_all (\<lambda>i. i < 0 + length xs) (c # cs)"
    using assms(2) ccs by (metis add_0 list_all_iff set_sort)
  from yield_loop_select [OF strict _ rng]
  have "yield_loop c (rev cs) (List.enumerate 0 xs) = map (\<lambda>i. xs ! i) (c # cs)" by simp
  then show ?thesis
    using False by (simp add: yield_subset_def sorted_py_def srt ccs)
qed

lemma write_lines_Cons: "write_lines outp (l # ls) w = write_lines outp ls (fwrite w outp l)"
  by (simp add: write_lines_def)

lemma write_lines_eq:
  "files w outp = Some t \<Longrightarrow>
   write_lines outp ls w = w\<lparr>files := (files w)(outp \<mapsto> t @ concat ls)\<rparr>"
proof (induction ls arbitrary: w t)
  case Nil
  then show ?case by (simp add: write_lines_def fun_upd_idem)
next
  case (Cons l ls)
  have fw: "fwrite w outp l = w\<lparr>files := (files w)(outp \<mapsto> t @ l)\<rparr>"
    using Cons.prems by (simp add: fwrite_def read_text_def)
  then have "files (fwrite w outp l) outp = Some (t @ l)" by simp
  from Cons.IH [OF this]
  have "write_lines outp ls (fwrite w outp l)
          = (fwrite w outp l)\<lparr>files := (files (fwrite w outp l))(outp \<mapsto> (t @ l) @ concat ls)\<rparr>" .
  also have "\<dots> = w\<lparr>files := (files w)(outp \<mapsto> t @ concat (l # ls))\<rparr>"
    unfolding fw by simp
  finally show ?case by (simp only: write_lines_Cons)
qed

lemma write_subset_eq:
  assumes "files w inp = Some t" and "inp \<noteq> outp"
    and "distinct sample" and "list_all (\<lambda>i. i < length (iter_lines t)) sample"
  shows "write_subset inp outp sample w =
           (None, w\<lparr>files := (files w)(outp \<mapsto> concat (map (\<lambda>i. iter_lines t ! i) (sort sample))),
                     wlog := wlog w @ [outp]\<rparr>)"
proof -
  have "files (open_write w outp) outp = Some []" by (simp add: open_write_def)
  from write_lines_eq [OF this]
  show ?thesis
    using assms
    by (simp add: write_subset_def on_ok_def open_read_def isfile_def read_text_def
          open_write_def yield_subset_select Let_def)
qed

section \<open>The subset step\<close>

lemma sample_in_range:
  assumes "sample_contract E" and "0 \<le> k" and "k \<le> int n"
  obtains s r' where "random_sample E n k r = (Inr s, r')" and "length s = nat k"
    and "distinct s" and "list_all (\<lambda>i. i < n) s"
proof -
  from assms(1) have c: "case fst (random_sample E n k r) of
                 Inl e \<Rightarrow> e = ValueError \<and> (k < 0 \<or> int n < k)
               | Inr s \<Rightarrow> 0 \<le> k \<and> k \<le> int n \<and> length s = nat k \<and> distinct s
                          \<and> list_all (\<lambda>i. i < n) s"
    unfolding sample_contract_def by blast
  show ?thesis
  proof (cases "random_sample E n k r")
    case (Pair a r')
    with c assms(2,3) that show ?thesis by (cases a) auto
  qed
qed

lemma upt_small: "[0..<2] = [0, Suc 0]" "[Suc 0..<2] = [Suc 0]"
  "[2..<4] = [2, 3]" "[3..<4] = [3]" "[0..<4] = [0, Suc 0, 2, 3]"
  by (simp_all add: numeral_2_eq_2 upt_rec)

lemmas subset_defs = get_subset_def draw_sample_def write_subset_def yield_subset_def
  get_total_lines_def enumerate_eq_zip

text \<open>
  C5: a \<^verbatim>\<open>subset\<close> step in paired mode that is not skipped, on a source and a target
  file of \<open>T\<close> lines each and with a size \<open>0 \<le> K \<le> T\<close>, its outputs being other files
  than its inputs, returns normally. There is a list of \<open>K\<close> indices below \<open>T\<close>, strictly
  ascending (so without repetition), such that the source output consists of the source
  lines at these indices and the target output of the target lines at the same indices,
  in that order; read back line by line, each output has exactly these \<open>K\<close> lines.
\<close>

theorem get_subset_paired:
  assumes "sample_contract E"
    and "param_path parameters ''src_input'' = Inr si"
    and "param_path parameters ''tgt_input'' = Inr ti"
    and "param_path parameters ''src_output'' = Inr so"
    and "param_path parameters ''tgt_output'' = Inr to"
    and "src_in = path_join (output_dir self) si"
    and "tgt_in = path_join (output_dir self) ti"
    and "src_out = path_join (output_dir self) so"
    and "tgt_out = path_join (output_dir self) to"
    and "src_out \<noteq> src_in" and "src_out \<noteq> tgt_in" and "src_out \<noteq> tgt_out"
    and "tgt_out \<noteq> tgt_in"
    and "\<not> skip_step overwrite w [src_out, tgt_out]"
    and "getitem parameters ''size'' = Inr (PInt K)"
    and "\<not> truthy (dict_get parameters ''shuffle_target'' (PBool False))"
    and "files w src_in = Some src_text"
    and "files w tgt_in = Some tgt_text"
    and "length (iter_lines src_text) = T"
    and "length (iter_lines tgt_text) = T"
    and "0 \<le> K" and "K \<le> int T"
  shows "\<exists>sample w'.
           get_subset E self parameters overwrite w = (None, w') \<and>
           length sample = nat K \<and> sorted_wrt (<) sample \<and> set sample \<subseteq> {..<T} \<and>
           files w' src_out = Some (concat (map (\<lambda>i. iter_lines src_text ! i) sample)) \<and>
           files w' tgt_out = Some (concat (map (\<lambda>i. iter_lines tgt_text ! i) sample)) \<and>
           iter_lines (concat (map (\<lambda>i. iter_lines src_text ! i) sample))
             = map (\<lambda>i. iter_lines src_text ! i) sample \<and>
           iter_lines (concat (map (\<lambda>i. iter_lines tgt_text ! i) sample))
             = map (\<lambda>i. iter_lines tgt_text ! i) sample"
proof -
  let ?w1 = "w\<lparr>rng := random_seed E (dict_get parameters ''seed'' PNone) (rng w)\<rparr>"
  have tot: "get_total_lines ?w1 src_in = Inr (int T)"
    using assms(17,19) by (simp add: get_total_lines_eq)
  from sample_in_range [OF assms(1,21,22), of "rng ?w1"]
  obtain s r' where smp: "random_sample E T K (rng ?w1) = (Inr s, r')"
    and len: "length s = nat K" and dist: "distinct s"
    and rng: "list_all (\<lambda>i. i < T) s"
    by blast
  let ?w2 = "?w1\<lparr>rng := r'\<rparr>"
  let ?S = "sort s"
  let ?w3 = "?w2\<lparr>files := (files ?w2)(src_out \<mapsto> concat (map (\<lambda>i. iter_lines src_text ! i) ?S)),
                  wlog := wlog ?w2 @ [src_out]\<rparr>"
  let ?w4 = "?w3\<lparr>files := (files ?w3)(tgt_out \<mapsto> concat (map (\<lambda>i. iter_lines tgt_text ! i) ?S)),
                  wlog := wlog ?w3 @ [tgt_out]\<rparr>"
  have draw: "\<And>k. draw_sample E (int T) (PInt K) ?w1 k = k s ?w2"
    using smp by (simp add: draw_sample_def on_ok_def)
  have ws1: "write_subset src_in src_out s ?w2 = (None, ?w3)"
    by (rule write_subset_eq) (use assms(10,17,19) dist rng in simp_all)
  have ws2: "write_subset tgt_in tgt_out s ?w3 = (None, ?w4)"
    by (rule write_subset_eq) (use assms(11,13,18,20) dist rng in simp_all)
  have run: "get_subset E self parameters overwrite w = (None, ?w4)"
    using assms(2-5,14-16) tot draw ws1 ws2 unfolding assms(6-9)
    by (simp add: get_subset_def on_ok_def and_then_def Let_def)
  have strict: "sorted_wrt (<) ?S"
    using dist by (simp add: strict_sorted_iff)
  have inr: "list_all (\<lambda>i. i < T) ?S"
    using rng by (simp add: list_all_iff)
  have l1: "iter_lines (concat (map (\<lambda>i. iter_lines src_text ! i) ?S))
              = map (\<lambda>i. iter_lines src_text ! i) ?S"
    by (rule iter_lines_concat, rule lines_ok_select)
       (use strict inr assms(19) in \<open>simp_all add: lines_ok_iter_lines\<close>)
  have l2: "iter_lines (concat (map (\<lambda>i. iter_lines tgt_text ! i) ?S))
              = map (\<lambda>i. iter_lines tgt_text ! i) ?S"
    by (rule iter_lines_concat, rule lines_ok_select)
       (use strict inr assms(20) in \<open>simp_all add: lines_ok_iter_lines\<close>)
  have sub: "set ?S \<subseteq> {..<T}"
    using rng by (auto simp add: list_all_iff)
  have f1: "files ?w4 src_out = Some (concat (map (\<lambda>i. iter_lines src_text ! i) ?S))"
    using assms(12) by simp
  have f2: "files ?w4 tgt_out = Some (concat (map (\<lambda>i. iter_lines tgt_text ! i) ?S))"
    by simp
  have "length ?S = nat K" using len by simp
  with run strict sub f1 f2 l1 l2 show ?thesis by blast
qed

theorem get_subset_paired_witness:
  "sample_contract det_ext \<and>
   param_path (subset_params 2 False) ''src_input'' = Inr ''a.src'' \<and>
   param_path (subset_params 2 False) ''tgt_input'' = Inr ''a.tgt'' \<and>
   param_path (subset_params 2 False) ''src_output'' = Inr ''s.src'' \<and>
   param_path (subset_params 2 False) ''tgt_output'' = Inr ''s.tgt'' \<and>
   ''work/a.src'' = path_join (output_dir work_self) ''a.src'' \<and>
   ''work/a.tgt'' = path_join (output_dir work_self) ''a.tgt'' \<and>
   ''work/s.src'' = path_join (output_dir work_self) ''s.src'' \<and>
   ''work/s.tgt'' = path_join (output_dir work_self) ''s.tgt'' \<and>
   ''work/s.src'' \<noteq> ''work/a.src'' \<and> ''work/s.src'' \<noteq> ''work/a.tgt'' \<and>
   ''work/s.src'' \<noteq> ''work/s.tgt'' \<and> ''work/s.tgt'' \<noteq> ''work/a.tgt'' \<and>
   \<not> skip_step False letters_world [''work/s.src'', ''work/s.tgt''] \<and>
   getitem (subset_params 2 False) ''size'' = Inr (PInt 2) \<and>
   \<not> truthy (dict_get (subset_params 2 False) ''shuffle_target'' (PBool False)) \<and>
   files letters_world ''work/a.src'' = Some (unlines [''a'', ''b'', ''c'', ''d'']) \<and>
   files letters_world ''work/a.tgt'' = Some (unlines [''w'', ''x'', ''y'', ''z'']) \<and>
   length (iter_lines (unlines [''a'', ''b'', ''c'', ''d''])) = 4 \<and>
   length (iter_lines (unlines [''w'', ''x'', ''y'', ''z''])) = 4 \<and>
   (0::int) \<le> 2 \<and> (2::int) \<le> int 4 \<and>
   (\<exists>sample w'.
      get_subset det_ext work_self (subset_params 2 False) False letters_world = (None, w') \<and>
      length sample = nat 2 \<and> sorted_wrt (<) sample \<and> set sample \<subseteq> {..<4} \<and>
      files w' ''work/s.src''
        = Some (concat (map (\<lambda>i. iter_lines (unlines [''a'', ''b'', ''c'', ''d'']) ! i) sample)) \<and>
      files w' ''work/s.tgt''
        = Some (concat (map (\<lambda>i. iter_lines (unlines [''w'', ''x'', ''y'', ''z'']) ! i) sample)) \<and>
      iter_lines (concat (map (\<lambda>i. iter_lines (unlines [''a'', ''b'', ''c'', ''d'']) ! i) sample))
        = map (\<lambda>i. iter_lines (unlines [''a'', ''b'', ''c'', ''d'']) ! i) sample \<and>
      iter_lines (concat (map (\<lambda>i. iter_lines (unlines [''w'', ''x'', ''y'', ''z'']) ! i) sample))
        = map (\<lambda>i. iter_lines (unlines [''w'', ''x'', ''y'', ''z'']) ! i) sample) \<and>
   files (snd (get_subset det_ext work_self (subset_params 2 False) False letters_world))
     ''work/s.src'' = Some (unlines [''c'', ''d'']) \<and>
   files (snd (get_subset det_ext work_self (subset_params 2 False) False letters_world))
     ''work/s.tgt'' = Some (unlines [''y'', ''z''])"
proof -
  have h2: "param_path (subset_params 2 False) ''src_input'' = Inr ''a.src''"
    and h3: "param_path (subset_params 2 False) ''tgt_input'' = Inr ''a.tgt''"
    and h4: "param_path (subset_params 2 False) ''src_output'' = Inr ''s.src''"
    and h5: "param_path (subset_params 2 False) ''tgt_output'' = Inr ''s.tgt''"
    and h15: "getitem (subset_params 2 False) ''size'' = Inr (PInt 2)"
    and h16: "\<not> truthy (dict_get (subset_params 2 False) ''shuffle_target'' (PBool False))"
    by (simp_all add: subset_params_def param_path_def getitem_def dict_get_def bindE_def)
  have h6: "''work/a.src'' = path_join (output_dir work_self) ''a.src''"
    and h7: "''work/a.tgt'' = path_join (output_dir work_self) ''a.tgt''"
    and h8: "''work/s.src'' = path_join (output_dir work_self) ''s.src''"
    and h9: "''work/s.tgt'' = path_join (output_dir work_self) ''s.tgt''"
    by (simp_all add: work_self_def opusfilter_init_def path_join_def)
  have h10: "''work/s.src'' \<noteq> ''work/a.src''" and h11: "''work/s.src'' \<noteq> ''work/a.tgt''"
    and h12: "''work/s.src'' \<noteq> ''work/s.tgt''" and h13: "''work/s.tgt'' \<noteq> ''work/a.tgt''"
    by simp_all
  have h14: "\<not> skip_step False letters_world [''work/s.src'', ''work/s.tgt'']"
    by (simp add: skip_step_def isfile_def letters_world_def)
  have h17: "files letters_world ''work/a.src'' = Some (unlines [''a'', ''b'', ''c'', ''d''])"
    and h18: "files letters_world ''work/a.tgt'' = Some (unlines [''w'', ''x'', ''y'', ''z''])"
    by (simp_all add: letters_world_def)
  have h19: "length (iter_lines (unlines [''a'', ''b'', ''c'', ''d''])) = 4"
    and h20: "length (iter_lines (unlines [''w'', ''x'', ''y'', ''z''])) = 4"
    by (simp_all add: unlines_def newline_def)
  have h21: "(0::int) \<le> 2" and h22: "(2::int) \<le> int 4" by simp_all
  have ev: "files (snd (get_subset det_ext work_self (subset_params 2 False) False letters_world))
     ''work/s.src'' = Some (unlines [''c'', ''d''])"
   "files (snd (get_subset det_ext work_self (subset_params 2 False) False letters_world))
     ''work/s.tgt'' = Some (unlines [''y'', ''z''])"
    by (simp_all add: subset_defs example_defs io_defs upt_small)
  note concl = get_subset_paired [OF det_ext_sample_contract h2 h3 h4 h5 h6 h7 h8 h9 h10 h11 h12 h13
      h14 h15 h16 h17 h18 h19 h20 h21 h22]
  show ?thesis
    by (intro conjI det_ext_sample_contract h2 h3 h4 h5 h6 h7 h8 h9 h10 h11 h12 h13
      h14 h15 h16 h17 h18 h19 h20 h21 h22 concl ev)
qed

lemma iter_lines_not_Nil: "s \<noteq> [] \<Longrightarrow> iter_lines s \<noteq> []"
  by (cases s) (auto split: list.splits)

lemma iter_lines_all_ended:
  "s \<noteq> [] \<Longrightarrow> last s = newline \<Longrightarrow> list_all (\<lambda>l. last l = newline) (iter_lines s)"
proof (induction s)
  case Nil
  then show ?case by simp
next
  case (Cons c cs)
  show ?case
  proof (cases "c = newline")
    case True
    with Cons show ?thesis by (cases "cs = []") simp_all
  next
    case False
    with Cons.prems have ne: "cs \<noteq> []" and "last cs = newline" by (auto split: if_splits)
    with Cons.IH have ih: "list_all (\<lambda>l. last l = newline) (iter_lines cs)" by simp
    from ne obtain l ls where ls: "iter_lines cs = l # ls"
      using iter_lines_not_Nil [of cs] by (cases "iter_lines cs") auto
    have "line_ok l" using lines_ok_iter_lines [of cs] ls by (simp add: lines_ok_def)
    then have "l \<noteq> []" by (simp add: line_ok_def)
    with ih ls False show ?thesis by simp
  qed
qed

lemma lines_ok_all_ended:
  "list_all line_ok ls \<Longrightarrow> list_all (\<lambda>l. last l = newline) ls \<Longrightarrow> lines_ok ls"
  by (auto simp add: lines_ok_def list_all_iff dest: in_set_butlastD)

text \<open>
  In the mode \<^verbatim>\<open>shuffle_target\<close>, when the target text is empty or ends with a newline:
  the source output holds the source lines of one sample in ascending order of their
  indices, and the target output holds, in the order the shuffle gave them, the target
  lines of a second sample of the same size.
\<close>

lemma get_subset_shuffle_target_ended:
  assumes "sample_contract E" and "shuffle_contract E"
    and "param_path parameters ''src_input'' = Inr si"
    and "param_path parameters ''tgt_input'' = Inr ti"
    and "param_path parameters ''src_output'' = Inr so"
    and "param_path parameters ''tgt_output'' = Inr to"
    and "src_in = path_join (output_dir self) si"
    and "tgt_in = path_join (output_dir self) ti"
    and "src_out = path_join (output_dir self) so"
    and "tgt_out = path_join (output_dir self) to"
    and "src_out \<noteq> src_in" and "src_out \<noteq> tgt_in" and "src_out \<noteq> tgt_out"
    and "\<not> skip_step overwrite w [src_out, tgt_out]"
    and "getitem parameters ''size'' = Inr (PInt K)"
    and "truthy (dict_get parameters ''shuffle_target'' (PBool False))"
    and "files w src_in = Some src_text"
    and "files w tgt_in = Some tgt_text"
    and "length (iter_lines src_text) = T"
    and "length (iter_lines tgt_text) = T"
    and "0 \<le> K" and "K \<le> int T"
    and "tgt_text = [] \<or> last tgt_text = newline"
  shows "\<exists>s1 s2 lines w'.
           get_subset E self parameters overwrite w = (None, w') \<and>
           length s1 = nat K \<and> sorted_wrt (<) s1 \<and> set s1 \<subseteq> {..<T} \<and>
           files w' src_out = Some (concat (map (\<lambda>i. iter_lines src_text ! i) s1)) \<and>
           iter_lines (concat (map (\<lambda>i. iter_lines src_text ! i) s1))
             = map (\<lambda>i. iter_lines src_text ! i) s1 \<and>
           length s2 = nat K \<and> sorted_wrt (<) s2 \<and> set s2 \<subseteq> {..<T} \<and>
           mset lines = mset (map (\<lambda>i. iter_lines tgt_text ! i) s2) \<and>
           files w' tgt_out = Some (concat lines) \<and>
           iter_lines (concat lines) = lines"
proof -
  let ?w1 = "w\<lparr>rng := random_seed E (dict_get parameters ''seed'' PNone) (rng w)\<rparr>"
  have tot: "get_total_lines ?w1 src_in = Inr (int T)"
    using assms(17,19) by (simp add: get_total_lines_eq)
  from sample_in_range [OF assms(1,21,22), of "rng ?w1"]
  obtain s r1 where smp: "random_sample E T K (rng ?w1) = (Inr s, r1)"
    and len: "length s = nat K" and dist: "distinct s"
    and rng: "list_all (\<lambda>i. i < T) s"
    by blast
  let ?w2 = "?w1\<lparr>rng := r1\<rparr>"
  let ?S1 = "sort s"
  let ?w3 = "?w2\<lparr>files := (files ?w2)(src_out \<mapsto> concat (map (\<lambda>i. iter_lines src_text ! i) ?S1)),
                  wlog := wlog ?w2 @ [src_out]\<rparr>"
  from sample_in_range [OF assms(1,21,22), of "rng ?w3"]
  obtain s' r2 where smp2: "random_sample E T K (rng ?w3) = (Inr s', r2)"
    and len2: "length s' = nat K" and dist2: "distinct s'"
    and rng2: "list_all (\<lambda>i. i < T) s'"
    by blast
  let ?w4 = "?w3\<lparr>rng := r2\<rparr>"
  let ?S2 = "sort s'"
  let ?sel = "map (\<lambda>i. iter_lines tgt_text ! i) ?S2"
  obtain lines r3 where shf: "random_shuffle E ?sel (rng ?w4) = (lines, r3)"
    by (cases "random_shuffle E ?sel (rng ?w4)") auto
  have perm: "mset lines = mset ?sel"
    using assms(2) shf unfolding shuffle_contract_def by (metis fst_conv)
  let ?w5 = "open_write (?w4\<lparr>rng := r3\<rparr>) tgt_out"
  let ?w6 = "?w5\<lparr>files := (files ?w5)(tgt_out \<mapsto> concat lines)\<rparr>"
  have draw1: "\<And>k. draw_sample E (int T) (PInt K) ?w1 k = k s ?w2"
    using smp by (simp add: draw_sample_def on_ok_def)
  have draw2: "\<And>k. draw_sample E (int T) (PInt K) ?w3 k = k s' ?w4"
    using smp2 by (simp add: draw_sample_def on_ok_def)
  have ws1: "write_subset src_in src_out s ?w2 = (None, ?w3)"
    by (rule write_subset_eq) (use assms(11,17,19) dist rng in simp_all)
  have rd: "files ?w4 tgt_in = Some tgt_text"
    using assms(12,18) by simp
  have ys: "yield_subset (iter_lines tgt_text) s' = ?sel"
    by (rule yield_subset_select) (use dist2 rng2 assms(20) in simp_all)
  have "files ?w5 tgt_out = Some []" by (simp add: open_write_def)
  from write_lines_eq [OF this, of lines]
  have wl: "write_lines tgt_out lines ?w5 = ?w6" by simp
  have run: "get_subset E self parameters overwrite w = (None, ?w6)"
    using assms(3-6,14-16) tot draw1 draw2 ws1 rd ys shf wl unfolding assms(7-10)
    by (simp add: get_subset_def on_ok_def and_then_def Let_def open_read_def isfile_def
          read_text_def)
  have strict1: "sorted_wrt (<) ?S1" using dist by (simp add: strict_sorted_iff)
  have strict2: "sorted_wrt (<) ?S2" using dist2 by (simp add: strict_sorted_iff)
  have inr1: "list_all (\<lambda>i. i < T) ?S1" using rng by (simp add: list_all_iff)
  have inr2: "list_all (\<lambda>i. i < T) ?S2" using rng2 by (simp add: list_all_iff)
  have l1: "iter_lines (concat (map (\<lambda>i. iter_lines src_text ! i) ?S1))
              = map (\<lambda>i. iter_lines src_text ! i) ?S1"
    by (rule iter_lines_concat, rule lines_ok_select)
       (use strict1 inr1 assms(19) in \<open>simp_all add: lines_ok_iter_lines\<close>)
  have ended: "list_all (\<lambda>l. last l = newline) (iter_lines tgt_text)"
    using assms(23) by (cases "tgt_text = []") (simp_all add: iter_lines_all_ended)
  have ok: "list_all line_ok (iter_lines tgt_text)"
    using lines_ok_iter_lines [of tgt_text] by (simp add: lines_ok_def)
  have "set lines = set ?sel" using perm by (rule mset_eq_setD)
  also have "\<dots> \<subseteq> set (iter_lines tgt_text)"
    using inr2 assms(20) by (auto simp add: list_all_iff)
  finally have "list_all line_ok lines" and "list_all (\<lambda>l. last l = newline) lines"
    using ok ended by (auto simp add: list_all_iff)
  then have "lines_ok lines" by (rule lines_ok_all_ended)
  then have l2: "iter_lines (concat lines) = lines" by (rule iter_lines_concat)
  have sub1: "set ?S1 \<subseteq> {..<T}" using rng by (auto simp add: list_all_iff)
  have sub2: "set ?S2 \<subseteq> {..<T}" using rng2 by (auto simp add: list_all_iff)
  have f1: "files ?w6 src_out = Some (concat (map (\<lambda>i. iter_lines src_text ! i) ?S1))"
    using assms(13) by (simp add: open_write_def)
  have f2: "files ?w6 tgt_out = Some (concat lines)" by simp
  have n1: "length ?S1 = nat K" using len by simp
  have n2: "length ?S2 = nat K" using len2 by simp
  from run n1 strict1 sub1 f1 l1 n2 strict2 sub2 perm f2 l2 show ?thesis by blast
qed

text \<open>
  C6: in the mode \<^verbatim>\<open>shuffle_target\<close> the lines of the target sample are written as they
  were read. On a target file of two lines whose last line has no newline, with both
  lines sampled and the shuffle putting the last line first, the two lines are written
  as one: the target output has one line, which is neither of the sampled lines, while
  the source output has two.
\<close>

theorem shuffle_target_merges_unended_line:
  "length (iter_lines (read_text unended_world ''work/a.src'')) = 2 \<and>
   iter_lines (read_text unended_world ''work/a.tgt'') = [''x'' @ [newline], ''y''] \<and>
   fst (get_subset det_ext work_self (subset_params 2 True) False unended_world) = None \<and>
   files (snd (get_subset det_ext work_self (subset_params 2 True) False unended_world))
     ''work/s.src'' = Some (unlines [''a'', ''b'']) \<and>
   files (snd (get_subset det_ext work_self (subset_params 2 True) False unended_world))
     ''work/s.tgt'' = Some (''yx'' @ [newline]) \<and>
   iter_lines (''yx'' @ [newline]) = [''yx'' @ [newline]]"
  by (simp add: subset_defs example_defs io_defs upt_small)

section \<open>The rewriting of paths works on the copy\<close>

lemma frame_refl: "closed_from n h \<Longrightarrow> frame n h h"
  by (simp add: frame_def)

lemma frame_trans: "frame n h h1 \<Longrightarrow> frame n h1 h2 \<Longrightarrow> frame n h h2"
  by (simp add: frame_def)

lemma fresh_val_frame: "frame n h h' \<Longrightarrow> fresh_val n h' v = fresh_val n h v"
  by (simp add: frame_def fresh_val_def)

lemma closed_nth:
  "closed_from n h \<Longrightarrow> n \<le> a \<Longrightarrow> a < length h \<Longrightarrow> b \<in> set (refs_of_obj (h ! a)) \<Longrightarrow>
   n \<le> b \<and> b < length h"
proof -
  assume c: "closed_from n h" and a: "n \<le> a" "a < length h"
    and b: "b \<in> set (refs_of_obj (h ! a))"
  have "h ! a = drop n h ! (a - n)" using a by simp
  moreover have "a - n < length (drop n h)" using a by simp
  ultimately have "h ! a \<in> set (drop n h)" by (metis nth_mem)
  with c b show ?thesis by (auto simp add: closed_from_def list_all_iff)
qed

lemma frame_update:
  assumes "closed_from n h" and "n \<le> a" and "a < length h"
    and "set (refs_of_obj ob) \<subseteq> set (refs_of_obj (h ! a))"
  shows "frame n h (h[a := ob])"
proof -
  have sub: "\<And>b. b \<in> set (refs_of_obj ob) \<Longrightarrow> n \<le> b \<and> b < length h"
    using assms closed_nth by blast
  have "drop n (h[a := ob]) = (drop n h)[a - n := ob]"
    using assms(2) by (simp add: drop_update_swap)
  then have "closed_from n (h[a := ob])"
    using assms(1) sub
    by (auto simp add: closed_from_def list_all_iff dest!: set_update_subset_insert [THEN subsetD])
  then show ?thesis using assms(2) by (simp add: frame_def)
qed

lemma load_dict_fresh:
  assumes "closed_from n h" and "fresh_val n h v" and "load_dict h v e = Inr (a, d)"
  shows "n \<le> a \<and> a < length h \<and> h ! a = HDict d \<and> (\<forall>k x. map_of d k = Some x \<longrightarrow> fresh_val n h x)"
proof -
  from assms(3) have v: "v = HRef a" and a: "a < length h" and d: "h ! a = HDict d"
    by (auto simp add: load_dict_def split: hval.splits if_splits hobj.splits)
  from assms(2) v have na: "n \<le> a" by (simp add: fresh_val_def)
  have "fresh_val n h x" if "map_of d k = Some x" for k x
  proof -
    from that have "(k, x) \<in> set d" by (rule map_of_SomeD)
    then have "set (refs_of_val x) \<subseteq> set (refs_of_obj (h ! a))"
      using d by force
    with closed_nth [OF assms(1) na a] show ?thesis
      by (auto simp add: fresh_val_def list_all_iff)
  qed
  with na a d show ?thesis by blast
qed

lemma load_list_fresh:
  assumes "closed_from n h" and "fresh_val n h v" and "load_list h v = Inr (a, xs)"
  shows "n \<le> a \<and> a < length h \<and> h ! a = HList xs \<and> (\<forall>x \<in> set xs. fresh_val n h x)"
proof -
  from assms(3) have v: "v = HRef a" and a: "a < length h" and d: "h ! a = HList xs"
    by (auto simp add: load_list_def split: hval.splits if_splits hobj.splits)
  from assms(2) v have na: "n \<le> a" by (simp add: fresh_val_def)
  have "fresh_val n h x" if "x \<in> set xs" for x
  proof -
    from that have "set (refs_of_val x) \<subseteq> set (refs_of_obj (h ! a))"
      using d by force
    with closed_nth [OF assms(1) na a] show ?thesis
      by (auto simp add: fresh_val_def list_all_iff)
  qed
  with na a d show ?thesis by blast
qed

lemma refs_hdict_set_str:
  "set (refs_of_obj (HDict (hdict_set k (HStr s) d))) \<subseteq> set (refs_of_obj (HDict d))"
  by (auto simp add: hdict_set_def split: if_splits)

lemma hon_ok_frame:
  assumes "closed_from n h" and "\<And>x. r = Inr x \<Longrightarrow> frame n h (snd (k x))"
  shows "frame n h (snd (hon_ok r h k))"
  using assms by (cases r) (simp_all add: hon_ok_def frame_refl)

lemma hthen_frame:
  assumes "frame n h (snd r)" and "\<And>h1. frame n h h1 \<Longrightarrow> frame n h (snd (k h1))"
  shows "frame n h (snd (hthen r k))"
  using assms by (cases r) (auto simp add: hthen_def split: option.splits)

lemma set_item0_frame:
  assumes "closed_from n h" and "fresh_val n h x"
  shows "frame n h (snd (set_item0 od x h))"
  unfolding set_item0_def
proof (rule hon_ok_frame [OF assms(1)], clarify)
  fix c ys
  assume l: "load_list h x = Inr (c, ys)"
  from load_list_fresh [OF assms l] have c: "n \<le> c" "c < length h" "h ! c = HList ys" by auto
  show "frame n h (snd (case ys of [] \<Rightarrow> (Some IndexError, h)
          | y # ys' \<Rightarrow> hon_ok (hpath y) h (\<lambda>p. (None, h[c := HList (HStr (path_join od p) # ys')]))))"
  proof (cases ys)
    case Nil
    then show ?thesis using assms(1) by (simp add: frame_refl)
  next
    case (Cons y ys')
    have "frame n h (h[c := HList (HStr (path_join od p) # ys')])" for p
      by (rule frame_update [OF assms(1) c(1,2)]) (use c(3) Cons in auto)
    then show ?thesis using Cons assms(1) by (auto intro!: hon_ok_frame)
  qed
qed

lemma closed_frame: "frame n h h' \<Longrightarrow> closed_from n h'"
  by (simp add: frame_def)

lemma interpolate_loop_frame:
  assumes "closed_from n h" and "n \<le> a"
  shows "frame n h (snd (interpolate_loop od a idxs h))"
  using assms(1)
proof (induction idxs arbitrary: h)
  case Nil
  then show ?case by (simp add: frame_refl)
next
  case (Cons idx rest)
  note cl = Cons.prems
  show ?case
    unfolding interpolate_loop.simps
  proof (rule hon_ok_frame [OF cl], clarify)
    fix a' d
    assume ld: "load_dict h (HRef a) TypeError = Inr (a', d)"
    then have alt: "a < length h"
      by (auto simp add: load_dict_def split: if_splits)
    have fa: "fresh_val n h (HRef a)" using assms(2) alt by (simp add: fresh_val_def)
    from load_dict_fresh [OF cl fa ld]
    have dfresh: "\<And>k x. map_of d k = Some x \<Longrightarrow> fresh_val n h x" by blast
    show "frame n h (snd (hon_ok (hgetitem d ''interpolate'') h (\<lambda>interpolate.
            hon_ok (load_list h interpolate) h (\<lambda>(b, items).
              if idx < length items then
                hthen (set_item0 od (items ! idx) h) (interpolate_loop od a rest)
              else (Some IndexError, h)))))"
    proof (rule hon_ok_frame [OF cl])
      fix interpolate
      assume "hgetitem d ''interpolate'' = Inr interpolate"
      then have fi: "fresh_val n h interpolate"
        using dfresh by (auto simp add: hgetitem_def split: option.splits)
      show "frame n h (snd (hon_ok (load_list h interpolate) h (\<lambda>(b, items).
              if idx < length items then
                hthen (set_item0 od (items ! idx) h) (interpolate_loop od a rest)
              else (Some IndexError, h))))"
      proof (rule hon_ok_frame [OF cl], clarify)
        fix b items
        assume ll: "load_list h interpolate = Inr (b, items)"
        from load_list_fresh [OF cl fi ll]
        have ifresh: "\<And>x. x \<in> set items \<Longrightarrow> fresh_val n h x" by blast
        show "frame n h (snd (if idx < length items then
                hthen (set_item0 od (items ! idx) h) (interpolate_loop od a rest)
              else (Some IndexError, h)))"
        proof (cases "idx < length items")
          case True
          then have "fresh_val n h (items ! idx)" using ifresh by simp
          from set_item0_frame [OF cl this]
          have f1: "frame n h (snd (set_item0 od (items ! idx) h))" .
          have "frame n h (snd (hthen (set_item0 od (items ! idx) h) (interpolate_loop od a rest)))"
          proof (rule hthen_frame [OF f1])
            fix h1 assume fr: "frame n h h1"
            from Cons.IH [OF closed_frame [OF fr]] fr
            show "frame n h (snd (interpolate_loop od a rest h1))"
              by (rule frame_trans [rotated])
          qed
          with True show ?thesis by simp
        next
          case False
          then show ?thesis using cl by (simp add: frame_refl)
        qed
      qed
    qed
  qed
qed

lemma obj_rewrite_lm_params_frame:
  assumes "closed_from n h" and "fresh_val n h lm_params"
  shows "frame n h (snd (obj_rewrite_lm_params od lm_params h))"
  unfolding obj_rewrite_lm_params_def
proof (rule hon_ok_frame [OF assms(1)], clarify)
  fix a d
  assume ld: "load_dict h lm_params TypeError = Inr (a, d)"
  from load_dict_fresh [OF assms ld]
  have a: "n \<le> a" "a < length h" "h ! a = HDict d" by auto
  show "frame n h (snd (hon_ok (bindE (hgetitem d ''filename'') hpath) h (\<lambda>filename.
     let d1 = hdict_set ''filename'' (HStr (path_join od filename)) d;
         h1 = h[a := HDict d1];
         interpolate = (case map_of d1 ''interpolate'' of None \<Rightarrow> HNone | Some v \<Rightarrow> v)
     in if htruthy h1 interpolate then
          hon_ok (load_list h1 interpolate) h1 (\<lambda>(b, items).
            interpolate_loop od a [0..<length items] h1)
        else (None, h1))))"
  proof (rule hon_ok_frame [OF assms(1)])
    fix filename
    let ?d1 = "hdict_set ''filename'' (HStr (path_join od filename)) d"
    let ?h1 = "h[a := HDict ?d1]"
    have f1: "frame n h ?h1"
      by (rule frame_update [OF assms(1) a(1,2)]) (use a(3) refs_hdict_set_str in simp)
    then have c1: "closed_from n ?h1" by (rule closed_frame)
    have "frame n ?h1 (snd (hon_ok (load_list ?h1 v) ?h1 (\<lambda>(b, items).
            interpolate_loop od a [0..<length items] ?h1)))" for v
      by (rule hon_ok_frame [OF c1], clarify) (rule interpolate_loop_frame [OF c1 a(1)])
    with f1 have "frame n h (snd (hon_ok (load_list ?h1 v) ?h1 (\<lambda>(b, items).
            interpolate_loop od a [0..<length items] ?h1)))" for v
      by (rule frame_trans)
    with f1 show "frame n h (snd (
     let d1 = hdict_set ''filename'' (HStr (path_join od filename)) d;
         h1 = h[a := HDict d1];
         interpolate = (case map_of d1 ''interpolate'' of None \<Rightarrow> HNone | Some v \<Rightarrow> v)
     in if htruthy h1 interpolate then
          hon_ok (load_list h1 interpolate) h1 (\<lambda>(b, items).
            interpolate_loop od a [0..<length items] h1)
        else (None, h1)))"
      by (simp add: Let_def)
  qed
qed

lemma obj_rewrite_filter_frame:
  assumes "closed_from n h" and "fresh_val n h f"
  shows "frame n h (snd (obj_rewrite_filter od f h))"
  unfolding obj_rewrite_filter_def
proof (rule hon_ok_frame [OF assms(1)], clarify)
  fix a fd
  assume ld: "load_dict h f AttributeError = Inr (a, fd)"
  from load_dict_fresh [OF assms ld]
  have ffresh: "\<And>k x. map_of fd k = Some x \<Longrightarrow> fresh_val n h x" by blast
  show "frame n h (snd (case fd of
       [] \<Rightarrow> (Some StopIteration, h)
     | (filter_name, fp) # _ \<Rightarrow>
         hthen (if filter_name = ''WordAlignFilter'' then
                  hon_ok (obj_contains h ''priors'' fp) h (\<lambda>has_priors.
                    if has_priors then
                      hon_ok (load_dict h fp TypeError) h (\<lambda>(b, d).
                      hon_ok (bindE (hgetitem d ''priors'') hpath) h (\<lambda>priors.
                        (None, h[b := HDict (hdict_set ''priors'' (HStr (path_join od priors)) d)])))
                    else (None, h))
                else (None, h)) (\<lambda>h1.
         if filter_name = ''CrossEntropyFilter'' then
           hon_ok (load_dict h1 fp TypeError) h1 (\<lambda>(b, d).
           hon_ok (hgetitem d ''src_lm_params'') h1 (\<lambda>src_lm_params.
           hthen (obj_rewrite_lm_params od src_lm_params h1) (\<lambda>h2.
           hon_ok (load_dict h2 fp TypeError) h2 (\<lambda>(b', d').
           hon_ok (hgetitem d' ''tgt_lm_params'') h2 (\<lambda>tgt_lm_params.
             obj_rewrite_lm_params od tgt_lm_params h2)))))
         else (None, h1))))"
  proof (cases fd)
    case Nil
    then show ?thesis using assms(1) by (simp add: frame_refl)
  next
    case (Cons kv rest)
    obtain filter_name fp where kv: "kv = (filter_name, fp)" by (cases kv)
    have fp: "fresh_val n h fp"
      using ffresh [of filter_name fp] Cons kv by simp
    have first: "frame n h (snd (if filter_name = ''WordAlignFilter'' then
                  hon_ok (obj_contains h ''priors'' fp) h (\<lambda>has_priors.
                    if has_priors then
                      hon_ok (load_dict h fp TypeError) h (\<lambda>(b, d).
                      hon_ok (bindE (hgetitem d ''priors'') hpath) h (\<lambda>priors.
                        (None, h[b := HDict (hdict_set ''priors'' (HStr (path_join od priors)) d)])))
                    else (None, h))
                else (None, h)))"
    proof (cases "filter_name = ''WordAlignFilter''")
      case False
      then show ?thesis using assms(1) by (simp add: frame_refl)
    next
      case True
      have "frame n h (snd (hon_ok (load_dict h fp TypeError) h (\<lambda>(b, d).
                      hon_ok (bindE (hgetitem d ''priors'') hpath) h (\<lambda>priors.
                        (None, h[b := HDict (hdict_set ''priors'' (HStr (path_join od priors)) d)])))))"
      proof (rule hon_ok_frame [OF assms(1)], clarify)
        fix b d
        assume l: "load_dict h fp TypeError = Inr (b, d)"
        from load_dict_fresh [OF assms(1) fp l]
        have b: "n \<le> b" "b < length h" "h ! b = HDict d" by auto
        have "frame n h (h[b := HDict (hdict_set ''priors'' (HStr (path_join od priors)) d)])"
          for priors
          by (rule frame_update [OF assms(1) b(1,2)]) (use b(3) refs_hdict_set_str in simp)
        then show "frame n h (snd (hon_ok (bindE (hgetitem d ''priors'') hpath) h (\<lambda>priors.
                        (None, h[b := HDict (hdict_set ''priors'' (HStr (path_join od priors)) d)]))))"
          using assms(1) by (auto intro!: hon_ok_frame)
      qed
      then show ?thesis
        using True assms(1) by (auto intro!: hon_ok_frame simp add: frame_refl)
    qed
    have second: "frame n h (snd (if filter_name = ''CrossEntropyFilter'' then
           hon_ok (load_dict h1 fp TypeError) h1 (\<lambda>(b, d).
           hon_ok (hgetitem d ''src_lm_params'') h1 (\<lambda>src_lm_params.
           hthen (obj_rewrite_lm_params od src_lm_params h1) (\<lambda>h2.
           hon_ok (load_dict h2 fp TypeError) h2 (\<lambda>(b', d').
           hon_ok (hgetitem d' ''tgt_lm_params'') h2 (\<lambda>tgt_lm_params.
             obj_rewrite_lm_params od tgt_lm_params h2)))))
         else (None, h1)))" if fr: "frame n h h1" for h1
    proof (cases "filter_name = ''CrossEntropyFilter''")
      case False
      then show ?thesis using fr by simp
    next
      case True
      have c1: "closed_from n h1" using fr by (rule closed_frame)
      have fp1: "fresh_val n h1 fp" using fp fr by (simp add: fresh_val_frame)
      have tgt: "frame n h1 (snd (hon_ok (load_dict h2 fp TypeError) h2 (\<lambda>(b', d').
           hon_ok (hgetitem d' ''tgt_lm_params'') h2 (\<lambda>tgt_lm_params.
             obj_rewrite_lm_params od tgt_lm_params h2))))" if fr2: "frame n h1 h2" for h2
      proof -
        have c2: "closed_from n h2" using fr2 by (rule closed_frame)
        have fp2: "fresh_val n h2 fp" using fp1 fr2 by (simp add: fresh_val_frame)
        have "frame n h2 (snd (hon_ok (load_dict h2 fp TypeError) h2 (\<lambda>(b', d').
           hon_ok (hgetitem d' ''tgt_lm_params'') h2 (\<lambda>tgt_lm_params.
             obj_rewrite_lm_params od tgt_lm_params h2))))"
        proof (rule hon_ok_frame [OF c2], clarify)
          fix b' d'
          assume l: "load_dict h2 fp TypeError = Inr (b', d')"
          from load_dict_fresh [OF c2 fp2 l]
          have df: "\<And>k x. map_of d' k = Some x \<Longrightarrow> fresh_val n h2 x" by blast
          show "frame n h2 (snd (hon_ok (hgetitem d' ''tgt_lm_params'') h2 (\<lambda>tgt_lm_params.
             obj_rewrite_lm_params od tgt_lm_params h2)))"
          proof (rule hon_ok_frame [OF c2])
            fix t assume "hgetitem d' ''tgt_lm_params'' = Inr t"
            then have "fresh_val n h2 t"
              using df by (auto simp add: hgetitem_def split: option.splits)
            then show "frame n h2 (snd (obj_rewrite_lm_params od t h2))"
              by (rule obj_rewrite_lm_params_frame [OF c2])
          qed
        qed
        with fr2 show ?thesis by (rule frame_trans)
      qed
      have "frame n h1 (snd (hon_ok (load_dict h1 fp TypeError) h1 (\<lambda>(b, d).
           hon_ok (hgetitem d ''src_lm_params'') h1 (\<lambda>src_lm_params.
           hthen (obj_rewrite_lm_params od src_lm_params h1) (\<lambda>h2.
           hon_ok (load_dict h2 fp TypeError) h2 (\<lambda>(b', d').
           hon_ok (hgetitem d' ''tgt_lm_params'') h2 (\<lambda>tgt_lm_params.
             obj_rewrite_lm_params od tgt_lm_params h2)))))))"
      proof (rule hon_ok_frame [OF c1], clarify)
        fix b d
        assume l: "load_dict h1 fp TypeError = Inr (b, d)"
        from load_dict_fresh [OF c1 fp1 l]
        have df: "\<And>k x. map_of d k = Some x \<Longrightarrow> fresh_val n h1 x" by blast
        show "frame n h1 (snd (hon_ok (hgetitem d ''src_lm_params'') h1 (\<lambda>src_lm_params.
           hthen (obj_rewrite_lm_params od src_lm_params h1) (\<lambda>h2.
           hon_ok (load_dict h2 fp TypeError) h2 (\<lambda>(b', d').
           hon_ok (hgetitem d' ''tgt_lm_params'') h2 (\<lambda>tgt_lm_params.
             obj_rewrite_lm_params od tgt_lm_params h2))))))"
        proof (rule hon_ok_frame [OF c1])
          fix s assume "hgetitem d ''src_lm_params'' = Inr s"
          then have "fresh_val n h1 s"
            using df by (auto simp add: hgetitem_def split: option.splits)
          then have "frame n h1 (snd (obj_rewrite_lm_params od s h1))"
            by (rule obj_rewrite_lm_params_frame [OF c1])
          then show "frame n h1 (snd (hthen (obj_rewrite_lm_params od s h1) (\<lambda>h2.
           hon_ok (load_dict h2 fp TypeError) h2 (\<lambda>(b', d').
           hon_ok (hgetitem d' ''tgt_lm_params'') h2 (\<lambda>tgt_lm_params.
             obj_rewrite_lm_params od tgt_lm_params h2)))))"
            by (rule hthen_frame) (rule tgt)
        qed
      qed
      with fr have "frame n h (snd (hon_ok (load_dict h1 fp TypeError) h1 (\<lambda>(b, d).
           hon_ok (hgetitem d ''src_lm_params'') h1 (\<lambda>src_lm_params.
           hthen (obj_rewrite_lm_params od src_lm_params h1) (\<lambda>h2.
           hon_ok (load_dict h2 fp TypeError) h2 (\<lambda>(b', d').
           hon_ok (hgetitem d' ''tgt_lm_params'') h2 (\<lambda>tgt_lm_params.
             obj_rewrite_lm_params od tgt_lm_params h2)))))))"
        by (rule frame_trans)
      with True show ?thesis by simp
    qed
    from hthen_frame [OF first second] show ?thesis
      using Cons kv by simp
  qed
qed

lemma obj_rewrite_loop_frame:
  assumes "closed_from n h" and "\<forall>f \<in> set fs. fresh_val n h f"
  shows "frame n h (snd (obj_rewrite_loop od fs h))"
  using assms
proof (induction fs arbitrary: h)
  case Nil
  then show ?case by (simp add: frame_refl)
next
  case (Cons f fs)
  have f1: "frame n h (snd (obj_rewrite_filter od f h))"
    by (rule obj_rewrite_filter_frame) (use Cons.prems in simp_all)
  have "frame n h (snd (hthen (obj_rewrite_filter od f h) (obj_rewrite_loop od fs)))"
  proof (rule hthen_frame [OF f1])
    fix h1 assume fr: "frame n h h1"
    have "frame n h1 (snd (obj_rewrite_loop od fs h1))"
      by (rule Cons.IH) (use fr Cons.prems(2) in \<open>simp_all add: closed_frame fresh_val_frame\<close>)
    with fr show "frame n h (snd (obj_rewrite_loop od fs h1))" by (rule frame_trans)
  qed
  then show ?case by simp
qed

lemma obj_rewrite_filters_frame:
  assumes "closed_from n h" and "fresh_val n h filter_params"
  shows "frame n h (snd (obj_rewrite_filters od filter_params h))"
proof (cases "load_list h filter_params")
  case (Inr r)
  obtain a fs where r: "r = (a, fs)" by (cases r)
  from load_list_fresh [OF assms Inr [unfolded r]]
  have a: "a < length h" "h ! a = HList fs" and fr: "\<forall>f \<in> set fs. fresh_val n h f" by auto
  from Inr r have "filter_params = HRef a"
    by (auto simp add: load_list_def split: hval.splits if_splits hobj.splits)
  with a obj_rewrite_loop_frame [OF assms(1) fr] show ?thesis
    by (simp add: obj_rewrite_filters_def)
next
  case (Inl e)
  then have "snd (obj_rewrite_filters od filter_params h) = h"
    by (auto simp add: obj_rewrite_filters_def load_list_def split: hval.splits if_splits hobj.splits)
  then show ?thesis using assms(1) by (simp add: frame_refl)
qed

lemma copy_step_refl: "copy_inv n s \<Longrightarrow> copy_step n s s"
  by (simp add: copy_step_def)

lemma copy_step_trans: "copy_step n s s1 \<Longrightarrow> copy_step n s1 s2 \<Longrightarrow> copy_step n s s2"
  by (simp add: copy_step_def)

lemma closed_update:
  assumes "closed_from n h" and "n \<le> a" and "a < length h"
    and "list_all (\<lambda>b. n \<le> b \<and> b < length h) (refs_of_obj ob)"
  shows "closed_from n (h[a := ob])"
proof -
  have "drop n (h[a := ob]) = (drop n h)[a - n := ob]"
    using assms(2) by (simp add: drop_update_swap)
  then show ?thesis
    using assms(1,4)
    by (auto simp add: closed_from_def list_all_iff dest!: set_update_subset_insert [THEN subsetD])
qed

lemma closed_append:
  assumes "closed_from n h" and "n \<le> length h" and "refs_of_obj ob = []"
  shows "closed_from n (h @ [ob])"
  using assms by (fastforce simp add: closed_from_def list_all_iff less_Suc_eq)

lemma copy_inv_update:
  assumes "copy_inv n (memo, h)" and "n \<le> y" and "y < length h"
    and "list_all (\<lambda>b. n \<le> b \<and> b < length h) (refs_of_obj ob)"
  shows "copy_step n (memo, h) (memo, h[y := ob])"
  using assms closed_update [OF _ assms(2,3,4)]
  by (simp add: copy_step_def copy_inv_def)

lemma copy_items_step:
  assumes "copy_ok n rec" and "copy_inv n s" and "n \<le> y" and "y < length (snd s)"
  shows "copy_step n s (snd (copy_items rec y xs s))"
  using assms(2,4)
proof (induction xs arbitrary: s)
  case Nil
  then show ?case by (simp add: copy_step_refl)
next
  case (Cons x xs)
  obtain r s1 where rec: "rec x s = (r, s1)" by (cases "rec x s")
  with assms(1) Cons.prems(1)
  have st1: "copy_step n s s1" and fr: "\<And>x'. r = Inr x' \<Longrightarrow> fresh_val n (snd s1) x'"
    unfolding copy_ok_def by blast+
  show ?case
  proof (cases r)
    case (Inl e)
    with rec st1 show ?thesis by simp
  next
    case (Inr x')
    obtain memo h where s1: "s1 = (memo, h)" by (cases s1)
    let ?ob = "case h ! y of HList ys \<Rightarrow> HList (ys @ [x']) | ob \<Rightarrow> ob"
    have inv1: "copy_inv n (memo, h)" using st1 s1 by (simp add: copy_step_def)
    have y: "y < length h" using st1 s1 Cons.prems(2) by (simp add: copy_step_def)
    have old: "list_all (\<lambda>b. n \<le> b \<and> b < length h) (refs_of_obj (h ! y))"
      using closed_nth [of n h y] inv1 assms(3) y by (auto simp add: copy_inv_def list_all_iff)
    have new: "list_all (\<lambda>b. n \<le> b \<and> b < length h) (refs_of_val x')"
      using fr [OF Inr] s1 by (simp add: fresh_val_def)
    have "list_all (\<lambda>b. n \<le> b \<and> b < length h) (refs_of_obj ?ob)"
      using old new by (cases "h ! y") (auto simp add: list_all_iff)
    from copy_inv_update [OF inv1 assms(3) y this]
    have st2: "copy_step n (memo, h) (memo, h[y := ?ob])" .
    then have "copy_inv n (memo, h[y := ?ob])" by (simp add: copy_step_def)
    from Cons.IH [OF this] y
    have "copy_step n (memo, h[y := ?ob]) (snd (copy_items rec y xs (memo, h[y := ?ob])))"
      by simp
    with st1 st2 s1 have "copy_step n s (snd (copy_items rec y xs (memo, h[y := ?ob])))"
      by (blast intro: copy_step_trans)
    with rec Inr s1 show ?thesis by simp
  qed
qed

lemma refs_hdict_set:
  "set (refs_of_obj (HDict (hdict_set k v d))) \<subseteq> set (refs_of_obj (HDict d)) \<union> set (refs_of_val v)"
  by (auto simp add: hdict_set_def split: if_splits)

lemma copy_entries_step:
  assumes "copy_ok n rec" and "copy_inv n s" and "n \<le> y" and "y < length (snd s)"
  shows "copy_step n s (snd (copy_entries rec y d s))"
  using assms(2,4)
proof (induction d arbitrary: s)
  case Nil
  then show ?case by (simp add: copy_step_refl)
next
  case (Cons kv d)
  obtain r s1 where rec: "rec (snd kv) s = (r, s1)" by (cases "rec (snd kv) s")
  with assms(1) Cons.prems(1)
  have st1: "copy_step n s s1" and fr: "\<And>x'. r = Inr x' \<Longrightarrow> fresh_val n (snd s1) x'"
    unfolding copy_ok_def by blast+
  show ?case
  proof (cases r)
    case (Inl e)
    with rec st1 show ?thesis by simp
  next
    case (Inr x')
    obtain memo h where s1: "s1 = (memo, h)" by (cases s1)
    let ?ob = "case h ! y of HDict ys \<Rightarrow> HDict (hdict_set (fst kv) x' ys) | ob \<Rightarrow> ob"
    have inv1: "copy_inv n (memo, h)" using st1 s1 by (simp add: copy_step_def)
    have y: "y < length h" using st1 s1 Cons.prems(2) by (simp add: copy_step_def)
    have old: "list_all (\<lambda>b. n \<le> b \<and> b < length h) (refs_of_obj (h ! y))"
      using closed_nth [of n h y] inv1 assms(3) y by (auto simp add: copy_inv_def list_all_iff)
    have new: "list_all (\<lambda>b. n \<le> b \<and> b < length h) (refs_of_val x')"
      using fr [OF Inr] s1 by (simp add: fresh_val_def)
    have "list_all (\<lambda>b. n \<le> b \<and> b < length h) (refs_of_obj ?ob)"
    proof (cases "h ! y")
      case (HList ys)
      with old show ?thesis by simp
    next
      case (HDict ys)
      with old new refs_hdict_set [of "fst kv" x' ys] show ?thesis
        by (simp add: list_all_iff) blast
    qed
    from copy_inv_update [OF inv1 assms(3) y this]
    have st2: "copy_step n (memo, h) (memo, h[y := ?ob])" .
    then have "copy_inv n (memo, h[y := ?ob])" by (simp add: copy_step_def)
    from Cons.IH [OF this] y
    have "copy_step n (memo, h[y := ?ob]) (snd (copy_entries rec y d (memo, h[y := ?ob])))"
      by simp
    with st1 st2 s1 have "copy_step n s (snd (copy_entries rec y d (memo, h[y := ?ob])))"
      by (blast intro: copy_step_trans)
    with rec Inr s1 show ?thesis by simp
  qed
qed

lemma copy_inv_alloc:
  assumes "copy_inv n (memo, h)" and "refs_of_obj ob = []"
  shows "copy_step n (memo, h) ((a, length h) # memo, h @ [ob])"
  using assms closed_append [of n h ob]
  by (auto simp add: copy_step_def copy_inv_def list_all_iff)

lemma deepcopy_rec_ok: "copy_ok n (deepcopy_rec limit)"
proof (induction limit)
  case 0
  show ?case by (auto simp add: copy_ok_def copy_step_refl)
next
  case (Suc limit)
  show ?case
    unfolding copy_ok_def
  proof (intro allI impI)
    fix x s r s'
    assume inv: "copy_inv n s" and run: "deepcopy_rec (Suc limit) x s = (r, s')"
    obtain memo h where s: "s = (memo, h)" by (cases s)
    show "copy_step n s s' \<and> (\<forall>y. r = Inr y \<longrightarrow> fresh_val n (snd s') y)"
    proof (cases x)
      case (HRef a)
      show ?thesis
      proof (cases "map_of memo a")
        case (Some y)
        then have "(a, y) \<in> set memo" by (rule map_of_SomeD)
        with inv s have "n \<le> y \<and> y < length h" by (auto simp add: copy_inv_def list_all_iff)
        with run HRef Some s inv show ?thesis
          by (auto simp add: copy_step_refl fresh_val_def)
      next
        case None
        show ?thesis
        proof (cases "a < length h")
          case False
          with run HRef None s inv show ?thesis by (auto simp add: copy_step_refl)
        next
          case True
          let ?y = "length h"
          have ny: "n \<le> ?y" using inv s by (simp add: copy_inv_def)
          show ?thesis
          proof (cases "h ! a")
            case (HList xs)
            let ?s1 = "((a, ?y) # memo, h @ [HList []])"
            have a1: "copy_step n s ?s1" using copy_inv_alloc [of n memo h "HList []" a] inv s by simp
            then have i1: "copy_inv n ?s1" by (simp add: copy_step_def)
            from copy_items_step [OF Suc i1 ny, of xs]
            have a2: "copy_step n ?s1 (snd (copy_items (deepcopy_rec limit) ?y xs ?s1))" by simp
            obtain e s2 where ci: "copy_items (deepcopy_rec limit) ?y xs ?s1 = (e, s2)"
              by (cases "copy_items (deepcopy_rec limit) ?y xs ?s1")
            with a1 a2 have st: "copy_step n s s2" by (auto intro: copy_step_trans)
            have "?y < length (snd s2)" using a2 ci by (simp add: copy_step_def)
            then have fr: "fresh_val n (snd s2) (HRef ?y)" using ny by (simp add: fresh_val_def)
            from run HRef None True HList s ci have "s' = s2" and "\<And>y. r = Inr y \<Longrightarrow> y = HRef ?y"
              by (auto simp add: Let_def split: option.splits)
            with st fr show ?thesis by auto
          next
            case (HDict d)
            let ?s1 = "((a, ?y) # memo, h @ [HDict []])"
            have a1: "copy_step n s ?s1" using copy_inv_alloc [of n memo h "HDict []" a] inv s by simp
            then have i1: "copy_inv n ?s1" by (simp add: copy_step_def)
            from copy_entries_step [OF Suc i1 ny, of d]
            have a2: "copy_step n ?s1 (snd (copy_entries (deepcopy_rec limit) ?y d ?s1))" by simp
            obtain e s2 where ci: "copy_entries (deepcopy_rec limit) ?y d ?s1 = (e, s2)"
              by (cases "copy_entries (deepcopy_rec limit) ?y d ?s1")
            with a1 a2 have st: "copy_step n s s2" by (auto intro: copy_step_trans)
            have "?y < length (snd s2)" using a2 ci by (simp add: copy_step_def)
            then have fr: "fresh_val n (snd s2) (HRef ?y)" using ny by (simp add: fresh_val_def)
            from run HRef None True HDict s ci have "s' = s2" and "\<And>y. r = Inr y \<Longrightarrow> y = HRef ?y"
              by (auto simp add: Let_def split: option.splits)
            with st fr show ?thesis by auto
          qed
        qed
      qed
    qed (use run inv in \<open>auto simp add: copy_step_refl fresh_val_def\<close>)
  qed
qed

text \<open>
  Whatever makes the copy: when it is a deep copy, the loop changes no object that
  existed before the copy was made.
\<close>

lemma rewrite_frame:
  assumes "is_deep_copy h (deepcopy filters h)"
  shows "take (length h) (snd (copy_and_rewrite deepcopy od filters h)) = h"
proof -
  obtain res h1 where dc: "deepcopy filters h = (res, h1)" by (cases "deepcopy filters h")
  with assms have old: "take (length h) h1 = h" by (simp add: is_deep_copy_def)
  show ?thesis
  proof (cases res)
    case (Inl e)
    with dc old show ?thesis by (simp add: copy_and_rewrite_def)
  next
    case (Inr fp)
    with dc assms have fr: "fresh_val (length h) h1 fp" and cl: "closed_from (length h) h1"
      by (simp_all add: is_deep_copy_def)
    from obj_rewrite_filters_frame [OF cl fr, of od]
    have "take (length h) (snd (obj_rewrite_filters od fp h1)) = take (length h) h1"
      by (simp add: frame_def)
    with old dc Inr show ?thesis by (simp add: copy_and_rewrite_def)
  qed
qed

lemma deepcopy_model_is_deep_copy: "is_deep_copy h (deepcopy_model limit x h)"
proof -
  have inv: "copy_inv (length h) ([], h)"
    by (simp add: copy_inv_def closed_from_def)
  obtain r memo h1 where run: "deepcopy_rec limit x ([], h) = (r, memo, h1)"
    by (cases "deepcopy_rec limit x ([], h)") auto
  from deepcopy_rec_ok [of "length h" limit] inv run
  have st: "copy_step (length h) ([], h) (memo, h1)"
    and fr: "\<And>y. r = Inr y \<Longrightarrow> fresh_val (length h) h1 y"
    unfolding copy_ok_def by fastforce+
  from st have "length h \<le> length h1" and "take (length h) h1 = h"
    and "closed_from (length h) h1"
    by (simp_all add: copy_step_def copy_inv_def)
  with fr run show ?thesis
    by (cases r) (simp_all add: is_deep_copy_def deepcopy_model_def)
qed

text \<open>
  C8: whatever the store holds and whatever value the filter parameters are, after the
  copy and the rewriting of the paths (normal return or exception) every object that
  existed before is unchanged: the assignments of the loop reach only objects that the
  copy created.
\<close>

theorem score_rewrite_leaves_caller_objects:
  "take (length h) (snd (copy_and_rewrite (deepcopy_model limit) od filters h)) = h"
  by (rule rewrite_frame) (rule deepcopy_model_is_deep_copy)

text \<open>
  On the configuration \<open>cfg_heap\<close> the loop returns normally; the store is the old store
  followed by the nine objects of the copy, with the four paths joined to the output
  directory.
\<close>

lemma score_rewrite_example:
  "copy_and_rewrite (deepcopy_model 10) ''work'' (HRef 8) cfg_heap =
     (None, cfg_heap @
        [HList [HRef 10, HRef 12],
         HDict [(''WordAlignFilter'', HRef 11)],
         HDict [(''priors'', HStr ''work/align.priors''), (''threshold'', HInt 0)],
         HDict [(''CrossEntropyFilter'', HRef 13)],
         HDict [(''src_lm_params'', HRef 14), (''tgt_lm_params'', HRef 17)],
         HDict [(''filename'', HStr ''work/src.arpa''), (''interpolate'', HRef 15)],
         HList [HRef 16],
         HList [HStr ''work/sub.arpa'', HInt 1],
         HDict [(''filename'', HStr ''work/tgt.arpa'')]])"
  by code_simp

text \<open>
  What \<^verbatim>\<open>score_data\<close> hands to the pipeline: on the value of \<open>cfg_heap\<close>, the value of
  the rewritten copy above. A dictionary of model parameters that the configuration
  uses for the source and for the target is one object of the copy too, and its file
  name is joined to the output directory twice; two equal dictionaries are joined once
  each.
\<close>

lemma rewritten_filters_example:
  "rewritten_filters 1000 ''work'' (value_of 10 cfg_heap (HRef 8))
     = Inr (value_of 10 (snd (copy_and_rewrite (deepcopy_model 10) ''work'' (HRef 8) cfg_heap))
              (HRef 9))"
  by code_simp

lemma rewritten_filters_shared:
  "rewritten_filters 1000 ''work'' shared_lm_filters =
     Inr (PList [PDict [(''CrossEntropyFilter'',
       PDict [(''src_lm_params'', PDict [(''filename'', PStr ''work/work/lm.arpa'')]),
              (''tgt_lm_params'', PDict [(''filename'', PStr ''work/work/lm.arpa'')])])]])"
  by code_simp

lemma rewritten_filters_twin:
  "rewritten_filters 1000 ''work'' twin_lm_filters =
     Inr (PList [PDict [(''CrossEntropyFilter'',
       PDict [(''src_lm_params'', PDict [(''filename'', PStr ''work/lm.arpa'')]),
              (''tgt_lm_params'', PDict [(''filename'', PStr ''work/lm.arpa'')])])]])"
  by code_simp

end
